theory Spec2Isabelle
  imports Main "HOL-Library.AList"
begin

section \<open>Strings as Python sees them\<close>

text \<open>
  The converter of \<^verbatim>\<open>js_to_python_converter.py\<close> works on Python \<^verbatim>\<open>str\<close> values with the
  methods of \<^verbatim>\<open>str\<close> and the functions of the module \<^verbatim>\<open>re\<close>. A string is modelled as a
  \<^typ>\<open>string\<close> whose characters are the code points below 256; the character classes
  \<^verbatim>\<open>\w\<close>, \<^verbatim>\<open>\s\<close> and \<^verbatim>\<open>\d\<close> are those of Python 3 on that range.
\<close>

abbreviation NL :: char where "NL \<equiv> CHR 0x0A"
abbreviation SQ :: char where "SQ \<equiv> CHR 0x27"
abbreviation DQ :: char where "DQ \<equiv> CHR 0x22"
abbreviation BQ :: char where "BQ \<equiv> CHR 0x60"

datatype py_error = ValueError | AttributeError | TypeError | IndexError | RecursionError

definition is_word :: "char \<Rightarrow> bool" where
  "is_word c = (let n = (of_char c :: nat) in
     (48 \<le> n \<and> n \<le> 57) \<or> (65 \<le> n \<and> n \<le> 90) \<or> n = 95 \<or> (97 \<le> n \<and> n \<le> 122) \<or>
     n = 170 \<or> n = 178 \<or> n = 179 \<or> n = 181 \<or> n = 185 \<or> n = 186 \<or>
     (188 \<le> n \<and> n \<le> 190) \<or> (192 \<le> n \<and> n \<le> 214) \<or> (216 \<le> n \<and> n \<le> 246) \<or>
     248 \<le> n)"

definition is_space :: "char \<Rightarrow> bool" where
  "is_space c = (let n = (of_char c :: nat) in
     (9 \<le> n \<and> n \<le> 13) \<or> (28 \<le> n \<and> n \<le> 32) \<or> n = 133 \<or> n = 160)"

definition is_digit :: "char \<Rightarrow> bool" where
  "is_digit c = (let n = (of_char c :: nat) in 48 \<le> n \<and> n \<le> 57)"

text \<open>\<^verbatim>\<open>s.strip()\<close>, \<^verbatim>\<open>s.lstrip()\<close>: whitespace off both ends, off the left end.\<close>

definition str_lstrip :: "string \<Rightarrow> string" where
  "str_lstrip s = dropWhile is_space s"

definition str_strip :: "string \<Rightarrow> string" where
  "str_strip s = rev (dropWhile is_space (rev (dropWhile is_space s)))"

text \<open>\<^verbatim>\<open>s.startswith(t)\<close>, \<^verbatim>\<open>s.endswith(t)\<close>, \<^verbatim>\<open>t in s\<close>.\<close>

fun str_startswith :: "string \<Rightarrow> string \<Rightarrow> bool" where
  "str_startswith s [] = True"
| "str_startswith [] (b # bs) = False"
| "str_startswith (a # as) (b # bs) = (a = b \<and> str_startswith as bs)"

definition str_endswith :: "string \<Rightarrow> string \<Rightarrow> bool" where
  "str_endswith s t = str_startswith (rev s) (rev t)"

fun str_contains :: "string \<Rightarrow> string \<Rightarrow> bool" where
  "str_contains [] t = (t = [])"
| "str_contains (a # as) t = (str_startswith (a # as) t \<or> str_contains as t)"

text \<open>\<^verbatim>\<open>s.split(c)\<close> for a separator of one character, and \<^verbatim>\<open>s.split(c, 1)\<close>.\<close>

fun str_split :: "char \<Rightarrow> string \<Rightarrow> string list" where
  "str_split d [] = [[]]"
| "str_split d (x # xs) =
     (if x = d then [] # str_split d xs
      else (case str_split d xs of [] \<Rightarrow> [[x]] | w # ws \<Rightarrow> (x # w) # ws))"

definition str_split1 :: "char \<Rightarrow> string \<Rightarrow> string list" where
  "str_split1 d s =
     (if d \<in> set s then [takeWhile (\<lambda>x. x \<noteq> d) s, tl (dropWhile (\<lambda>x. x \<noteq> d) s)] else [s])"

text \<open>\<^verbatim>\<open>sep.join(xs)\<close>.\<close>

fun str_join :: "string \<Rightarrow> string list \<Rightarrow> string" where
  "str_join sep [] = []"
| "str_join sep [x] = x"
| "str_join sep (x # y # ys) = x @ sep @ str_join sep (y # ys)"

text \<open>
  \<^verbatim>\<open>s.replace(old, new)\<close>: the occurrences of \<^verbatim>\<open>old\<close> from left to right, not overlapping.
  With an empty \<^verbatim>\<open>old\<close> Python puts \<^verbatim>\<open>new\<close> around every character.
\<close>

function str_replace :: "string \<Rightarrow> string \<Rightarrow> string \<Rightarrow> string" where
  "str_replace old new s =
     (if old = [] then new @ concat (map (\<lambda>c. c # new) s)
      else if str_startswith s old then new @ str_replace old new (drop (length old) s)
      else (case s of [] \<Rightarrow> [] | x # xs \<Rightarrow> x # str_replace old new xs))"
  by pat_completeness auto
termination
proof (relation "measure (\<lambda>(old, new, s). length s)")
  fix old new s :: string
  assume "old \<noteq> []" and "str_startswith s old"
  then have "s \<noteq> []"
    by (cases old; cases s) auto
  with \<open>old \<noteq> []\<close>
  show "((old, new, drop (length old) s), (old, new, s)) \<in> measure (\<lambda>(old, new, s). length s)"
    by simp
qed auto

declare str_replace.simps [simp del]

text \<open>
  \<^verbatim>\<open>s.index(c)\<close> and \<^verbatim>\<open>s.rindex(c)\<close> raise \<^verbatim>\<open>ValueError\<close> when \<^verbatim>\<open>c\<close> does not occur.
\<close>

fun find_index_from :: "char \<Rightarrow> nat \<Rightarrow> string \<Rightarrow> nat option" where
  "find_index_from d i [] = None"
| "find_index_from d i (x # xs) = (if x = d then Some i else find_index_from d (Suc i) xs)"

definition str_index :: "char \<Rightarrow> string \<Rightarrow> py_error + nat" where
  "str_index d s = (case find_index_from d 0 s of None \<Rightarrow> Inl ValueError | Some i \<Rightarrow> Inr i)"

definition str_rindex :: "char \<Rightarrow> string \<Rightarrow> py_error + nat" where
  "str_rindex d s =
     (case find_index_from d 0 (rev s) of
        None \<Rightarrow> Inl ValueError
      | Some i \<Rightarrow> Inr (length s - 1 - i))"

text \<open>The slice \<^verbatim>\<open>s[a:b]\<close> for indices that are not negative.\<close>

definition str_slice :: "nat \<Rightarrow> nat \<Rightarrow> string \<Rightarrow> string" where
  "str_slice a b s = take (b - a) (drop a s)"

text \<open>\<^verbatim>\<open>xs[i]\<close> raises \<^verbatim>\<open>IndexError\<close> out of range.\<close>

definition py_nth :: "'a list \<Rightarrow> nat \<Rightarrow> py_error + 'a" where
  "py_nth xs i = (if i < length xs then Inr (xs ! i) else Inl IndexError)"

text \<open>The first error of a list of results, as a comprehension raises it.\<close>

fun sequence_e :: "(py_error + 'a) list \<Rightarrow> py_error + 'a list" where
  "sequence_e [] = Inr []"
| "sequence_e (Inl e # rs) = Inl e"
| "sequence_e (Inr x # rs) = (case sequence_e rs of Inl e \<Rightarrow> Inl e | Inr xs \<Rightarrow> Inr (x # xs))"

text \<open>How an f-string prints a value that may be \<^verbatim>\<open>None\<close>.\<close>

fun py_str :: "string option \<Rightarrow> string" where
  "py_str None = ''None''"
| "py_str (Some s) = s"


section \<open>The regular expressions of the module re\<close>

text \<open>
  The patterns of the converter use single characters and classes, greedy repetition of a
  class, literals, sequence, alternation, greedy options, numbered groups, one back
  reference, the word boundary, negative lookahead, a negative lookbehind of one character
  and the end of a line (\<^verbatim>\<open>$\<close> under \<^verbatim>\<open>re.MULTILINE\<close>).
\<close>

datatype cls = CWord | CSpace | CDigit | CDot | COneOf string | CNoneOf string

datatype re =
    One cls | Star cls | Plus cls | Lit string
  | Seq re re | Alt re re | Opt re | Grp nat re | Back nat
  | WordB | NotAhead re | NotBehind char | Eol

fun in_cls :: "cls \<Rightarrow> char \<Rightarrow> bool" where
  "in_cls CWord c = is_word c"
| "in_cls CSpace c = is_space c"
| "in_cls CDigit c = is_digit c"
| "in_cls CDot c = (c \<noteq> NL)"
| "in_cls (COneOf cs) c = (c \<in> set cs)"
| "in_cls (CNoneOf cs) c = (c \<notin> set cs)"

text \<open>
  A matcher state: the character before the position, the rest of the subject, the number
  of characters consumed since the start of the match, and the groups captured so far.
  The matcher backtracks as \<^verbatim>\<open>re\<close> does: it tries the alternatives in the order of priority
  and hands each partial match to the continuation, which decides whether the rest of
  the pattern matches.
\<close>

type_synonym caps = "nat \<Rightarrow> string option"
type_synonym mstate = "char option \<times> string \<times> nat \<times> caps"

fun star :: "cls \<Rightarrow> (mstate \<Rightarrow> mstate option) \<Rightarrow> mstate \<Rightarrow> mstate option" where
  "star cl K (p, [], k, c) = K (p, [], k, c)"
| "star cl K (p, x # xs, k, c) =
     (if in_cls cl x
      then (case star cl K (Some x, xs, Suc k, c) of
              Some r \<Rightarrow> Some r
            | None \<Rightarrow> K (p, x # xs, k, c))
      else K (p, x # xs, k, c))"

fun lit :: "string \<Rightarrow> (mstate \<Rightarrow> mstate option) \<Rightarrow> mstate \<Rightarrow> mstate option" where
  "lit [] K st = K st"
| "lit (a # as) K (p, [], k, c) = None"
| "lit (a # as) K (p, x # xs, k, c) =
     (if a = x then lit as K (Some x, xs, Suc k, c) else None)"

fun word_at :: "char option \<Rightarrow> bool" where
  "word_at None = False"
| "word_at (Some x) = is_word x"

fun nextc :: "string \<Rightarrow> char option" where
  "nextc [] = None"
| "nextc (x # xs) = Some x"

fun rm :: "re \<Rightarrow> (mstate \<Rightarrow> mstate option) \<Rightarrow> mstate \<Rightarrow> mstate option" where
  "rm (One cl) K (p, s, k, c) =
     (case s of [] \<Rightarrow> None
      | x # xs \<Rightarrow> if in_cls cl x then K (Some x, xs, Suc k, c) else None)"
| "rm (Star cl) K st = star cl K st"
| "rm (Plus cl) K (p, s, k, c) =
     (case s of [] \<Rightarrow> None
      | x # xs \<Rightarrow> if in_cls cl x then star cl K (Some x, xs, Suc k, c) else None)"
| "rm (Lit t) K st = lit t K st"
| "rm (Seq a b) K st = rm a (rm b K) st"
| "rm (Alt a b) K st = (case rm a K st of Some r \<Rightarrow> Some r | None \<Rightarrow> rm b K st)"
| "rm (Opt a) K st = (case rm a K st of Some r \<Rightarrow> Some r | None \<Rightarrow> K st)"
| "rm (Grp n a) K (p, s, k, c) =
     rm a (\<lambda>(p', s', k', c'). K (p', s', k', c'(n := Some (take (k' - k) s)))) (p, s, k, c)"
| "rm (Back n) K (p, s, k, c) =
     (case c n of None \<Rightarrow> None | Some g \<Rightarrow> lit g K (p, s, k, c))"
| "rm WordB K (p, s, k, c) =
     (if word_at p \<noteq> word_at (nextc s) then K (p, s, k, c) else None)"
| "rm (NotAhead a) K st = (case rm a Some st of Some r \<Rightarrow> None | None \<Rightarrow> K st)"
| "rm (NotBehind x) K (p, s, k, c) = (if p = Some x then None else K (p, s, k, c))"
| "rm Eol K (p, s, k, c) =
     (case s of [] \<Rightarrow> K (p, s, k, c)
      | x # xs \<Rightarrow> if x = NL then K (p, s, k, c) else None)"

fun seqs :: "re list \<Rightarrow> re" where
  "seqs [] = Lit []"
| "seqs [r] = r"
| "seqs (r # rs) = Seq r (seqs rs)"

abbreviation no_caps :: caps where "no_caps \<equiv> (\<lambda>n. None)"

text \<open>\<^verbatim>\<open>pattern.match(s, pos)\<close>: the match that starts at this position, if there is one.\<close>

definition match_here :: "re \<Rightarrow> char option \<Rightarrow> string \<Rightarrow> mstate option" where
  "match_here r p s = rm r Some (p, s, 0, no_caps)"

text \<open>
  A replacement template: literal text and references \<^verbatim>\<open>\1\<close>, \<^verbatim>\<open>\2\<close>, ... to groups. A
  group that took no part in the match expands to the empty string.
\<close>

datatype tpart = T string | G nat

fun expand :: "tpart list \<Rightarrow> caps \<Rightarrow> string" where
  "expand [] c = []"
| "expand (T s # ts) c = s @ expand ts c"
| "expand (G n # ts) c = (case c n of None \<Rightarrow> [] | Some g \<Rightarrow> g) @ expand ts c"

text \<open>
  \<^verbatim>\<open>re.sub(pattern, repl, s)\<close> with a function \<^verbatim>\<open>repl\<close>: the leftmost match is replaced and
  the search goes on behind it. After an empty match one character is copied.
\<close>

function re_sub_from :: "re \<Rightarrow> (caps \<Rightarrow> string) \<Rightarrow> char option \<Rightarrow> string \<Rightarrow> string" where
  "re_sub_from r f p [] =
     (case match_here r p [] of None \<Rightarrow> [] | Some (p', s', k, c) \<Rightarrow> f c)"
| "re_sub_from r f p (x # xs) =
     (case match_here r p (x # xs) of
        None \<Rightarrow> x # re_sub_from r f (Some x) xs
      | Some (p', s', k, c) \<Rightarrow>
          if k = 0 then f c @ x # re_sub_from r f (Some x) xs
          else f c @ re_sub_from r f p' (drop k (x # xs)))"
  by pat_completeness auto
termination
  by (relation "measure (\<lambda>(r, f, p, s). length s)") auto

text \<open>\<^verbatim>\<open>re.sub(pattern, template, s)\<close>.\<close>

definition re_sub :: "re \<Rightarrow> tpart list \<Rightarrow> string \<Rightarrow> string" where
  "re_sub r t s = re_sub_from r (expand t) None s"

text \<open>
  \<^verbatim>\<open>re.sub\<close> with a replacement function that reads and writes the converter and may raise:
  the first exception ends the substitution.
\<close>

function re_sub_call_from ::
  "re \<Rightarrow> (caps \<Rightarrow> 'st \<Rightarrow> py_error + string \<times> 'st) \<Rightarrow> 'st \<Rightarrow> char option \<Rightarrow> string
     \<Rightarrow> py_error + string \<times> 'st" where
  "re_sub_call_from r f st p [] =
     (case match_here r p [] of None \<Rightarrow> Inr ([], st) | Some (p', s', k, c) \<Rightarrow> f c st)"
| "re_sub_call_from r f st p (x # xs) =
     (case match_here r p (x # xs) of
        None \<Rightarrow>
          (case re_sub_call_from r f st (Some x) xs of
             Inl e \<Rightarrow> Inl e
           | Inr (out, st') \<Rightarrow> Inr (x # out, st'))
      | Some (p', s', k, c) \<Rightarrow>
          (case f c st of
             Inl e \<Rightarrow> Inl e
           | Inr (rep, st1) \<Rightarrow>
               if k = 0
               then (case re_sub_call_from r f st1 (Some x) xs of
                       Inl e \<Rightarrow> Inl e
                     | Inr (out, st') \<Rightarrow> Inr (rep @ x # out, st'))
               else (case re_sub_call_from r f st1 p' (drop k (x # xs)) of
                       Inl e \<Rightarrow> Inl e
                     | Inr (out, st') \<Rightarrow> Inr (rep @ out, st'))))"
  by pat_completeness auto
termination
  by (relation "measure (\<lambda>(r, f, st, p, s). length s)") auto

definition re_sub_call ::
  "re \<Rightarrow> (caps \<Rightarrow> 'st \<Rightarrow> py_error + string \<times> 'st) \<Rightarrow> 'st \<Rightarrow> string \<Rightarrow> py_error + string \<times> 'st"
  where
  "re_sub_call r f st s = re_sub_call_from r f st None s"

text \<open>The same with a replacement function that may raise and leaves the converter alone.\<close>

definition re_sub_err :: "re \<Rightarrow> (caps \<Rightarrow> py_error + string) \<Rightarrow> string \<Rightarrow> py_error + string" where
  "re_sub_err r f s =
     (case re_sub_call r (\<lambda>m st. case f m of Inl e \<Rightarrow> Inl e | Inr rep \<Rightarrow> Inr (rep, st)) () s of
        Inl e \<Rightarrow> Inl e
      | Inr (out, st) \<Rightarrow> Inr out)"

text \<open>\<^verbatim>\<open>re.search(pattern, s)\<close>, read as a truth value.\<close>

fun re_search_from :: "re \<Rightarrow> char option \<Rightarrow> string \<Rightarrow> bool" where
  "re_search_from r p [] = (match_here r p [] \<noteq> None)"
| "re_search_from r p (x # xs) =
     (case match_here r p (x # xs) of
        Some m \<Rightarrow> True
      | None \<Rightarrow> re_search_from r (Some x) xs)"

definition re_search :: "re \<Rightarrow> string \<Rightarrow> bool" where
  "re_search r s = re_search_from r None s"

text \<open>\<^verbatim>\<open>re.findall(pattern, s)\<close> for a pattern without groups: the matched texts.\<close>

function re_findall_from :: "re \<Rightarrow> char option \<Rightarrow> string \<Rightarrow> string list" where
  "re_findall_from r p [] =
     (case match_here r p [] of None \<Rightarrow> [] | Some m \<Rightarrow> [[]])"
| "re_findall_from r p (x # xs) =
     (case match_here r p (x # xs) of
        None \<Rightarrow> re_findall_from r (Some x) xs
      | Some (p', s', k, c) \<Rightarrow>
          if k = 0 then [] # re_findall_from r (Some x) xs
          else take k (x # xs) # re_findall_from r p' (drop k (x # xs)))"
  by pat_completeness auto
termination
  by (relation "measure (\<lambda>(r, p, s). length s)") auto

definition re_findall :: "re \<Rightarrow> string \<Rightarrow> string list" where
  "re_findall r s = re_findall_from r None s"

abbreviation ws0 :: re where "ws0 \<equiv> Star CSpace"
abbreviation ws1 :: re where "ws1 \<equiv> Plus CSpace"
abbreviation word :: re where "word \<equiv> Plus CWord"


section \<open>The converter\<close>

text \<open>
  \<^verbatim>\<open>JSPythonConverter.__init__\<close> sets \<^verbatim>\<open>renamed_vars\<close> to an empty dictionary and fills three
  tables that no method changes afterwards. A Python dictionary keeps its keys in the order
  of their first insertion, so \<^verbatim>\<open>renamed_vars\<close> is an association list.
\<close>

record converter =
  renamed_vars :: "(string \<times> string) list"

definition new_converter :: converter where
  "new_converter = \<lparr>renamed_vars = []\<rparr>"

definition type_map :: "(string \<times> string) list" where
  "type_map =
    [(''string'', ''str''), (''number'', ''float''), (''boolean'', ''bool''), (''any'', ''Any''),
     (''void'', ''None''), (''undefined'', ''None''), (''null'', ''None''),
     (''string[]'', ''List[str]''), (''number[]'', ''List[float]''),
     (''boolean[]'', ''List[bool]''), (''any[]'', ''List[Any]''),
     (''Array<string>'', ''List[str]''), (''Array<number>'', ''List[float]''),
     (''Array<boolean>'', ''List[bool]''), (''Array<any>'', ''List[Any]''),
     (''Promise'', ''Awaitable''), (''Object'', ''Dict[str, Any]''),
     (''Record<string, any>'', ''Dict[str, Any]'')]"

definition method_map :: "(string \<times> string) list" where
  "method_map =
    [(''console.log'', ''print''), (''console.error'', ''print''), (''console.warn'', ''print''),
     (''Math.floor'', ''int''), (''Math.ceil'', ''math.ceil''), (''Math.round'', ''round''),
     (''Math.abs'', ''abs''), (''Math.max'', ''max''), (''Math.min'', ''min''),
     (''Math.random'', ''random.random''), (''JSON.stringify'', ''json.dumps''),
     (''JSON.parse'', ''json.loads''), (''parseInt'', ''int''), (''parseFloat'', ''float''),
     (''toString'', ''str''), (''length'', ''len''), (''push'', ''append''), (''pop'', ''pop''),
     (''shift'', ''pop(0)''), (''indexOf'', ''index''), (''includes'', ''in''),
     (''toLowerCase'', ''lower''), (''toUpperCase'', ''upper''), (''trim'', ''strip''),
     (''split'', ''split''), (''join'', ''join''), (''replace'', ''replace''),
     (''slice'', ''slice''), (''substring'', ''slice'')]"

definition python_keywords :: "string list" where
  "python_keywords =
    [''class'', ''def'', ''return'', ''if'', ''else'', ''elif'', ''for'', ''while'',
     ''import'', ''from'', ''as'', ''try'', ''except'', ''finally'', ''with'',
     ''lambda'', ''pass'', ''break'', ''continue'', ''global'', ''nonlocal'',
     ''assert'', ''del'', ''in'', ''is'', ''not'', ''or'', ''and'', ''None'',
     ''True'', ''False'', ''yield'', ''async'', ''await'',
     ''max'', ''min'', ''sum'', ''len'', ''list'', ''dict'', ''set'', ''str'',
     ''int'', ''float'', ''bool'', ''type'', ''print'', ''input'', ''open'',
     ''range'', ''zip'', ''map'', ''filter'', ''sorted'', ''reversed'']"

subsection \<open>Decorators\<close>

text \<open>\<^verbatim>\<open>_extract_decorators\<close>, pattern \<^verbatim>\<open>@\w+\([^\)]*\)\s*\n\<close>.\<close>

definition re_decorator :: re where
  "re_decorator = seqs [Lit ''@'', word, Lit ''('', Star (CNoneOf '')''), Lit '')'', ws0, Lit [NL]]"

definition extract_decorators :: "string \<Rightarrow> string list \<times> string" where
  "extract_decorators code = (re_findall re_decorator code, re_sub re_decorator [] code)"

subsection \<open>Types and parameters\<close>

text \<open>
  \<^verbatim>\<open>_convert_type\<close> is the one recursive function of the converter: it calls itself on the
  parts of a union and on the arguments of \<^verbatim>\<open>Array<...>\<close>, \<^verbatim>\<open>Promise<...>\<close> and
  \<^verbatim>\<open>Record<...>\<close>. CPython gives every call a frame and raises \<^verbatim>\<open>RecursionError\<close> when the
  stack grows beyond \<^verbatim>\<open>sys.getrecursionlimit()\<close>, which is 1000 unless the program sets it.
  The model counts the nested calls of \<^verbatim>\<open>_convert_type\<close>: \<open>depth\<close> is the number of calls
  that may still be nested. The frames of the callers are not counted, so the model allows a
  nesting a few calls deeper than CPython does. The calls of \<^verbatim>\<open>index\<close> and \<^verbatim>\<open>rindex\<close> are
  the other places where the function could raise.
\<close>

definition recursion_limit :: nat where
  "recursion_limit = 1000"

lemma length_str_strip: "length (str_strip s) \<le> length s"
  unfolding str_strip_def
  by (metis length_dropWhile_le length_rev order_trans)

lemma str_split_nonempty: "str_split d s \<noteq> []"
  by (induction s) (auto split: list.splits)

lemma length_str_split_le: "x \<in> set (str_split d s) \<Longrightarrow> length x \<le> length s"
proof (induction s arbitrary: x)
  case Nil
  then show ?case by simp
next
  case (Cons a s)
  obtain w ws where sp: "str_split d s = w # ws"
    using str_split_nonempty [of d s] by (cases "str_split d s") auto
  with Cons.prems have "x = [] \<or> x = a # w \<or> x \<in> set (str_split d s)"
    by (auto split: if_splits)
  then show ?case
    using Cons.IH [of w] Cons.IH [of x] sp by auto
qed

lemma length_str_split_less:
  "d \<in> set s \<Longrightarrow> x \<in> set (str_split d s) \<Longrightarrow> length x < length s"
proof (induction s arbitrary: x)
  case Nil
  then show ?case by simp
next
  case (Cons a s)
  show ?case
  proof (cases "a = d")
    case True
    with Cons.prems have "x = [] \<or> x \<in> set (str_split d s)" by auto
    then show ?thesis
      using length_str_split_le [of x d s] by auto
  next
    case False
    with Cons.prems have d: "d \<in> set s" by auto
    obtain w ws where sp: "str_split d s = w # ws"
      using str_split_nonempty [of d s] by (cases "str_split d s") auto
    with False Cons.prems have "x = a # w \<or> x \<in> set ws" by auto
    then show ?thesis
      using Cons.IH [OF d, of w] Cons.IH [OF d, of x] sp by auto
  qed
qed

lemma length_str_slice_less: "s \<noteq> [] \<Longrightarrow> length (str_slice (Suc a) b s) < length s"
  by (cases s) (auto simp: str_slice_def)

lemma length_str_split1:
  "str_split1 d s = [a, b] \<Longrightarrow> length a \<le> length s \<and> length b \<le> length s"
proof -
  have "length (tl (dropWhile (\<lambda>x. x \<noteq> d) s)) \<le> length s"
    using length_dropWhile_le [of "\<lambda>x. x \<noteq> d" s] by simp
  moreover have "length (takeWhile (\<lambda>x. x \<noteq> d) s) \<le> length s"
    by (rule length_takeWhile_le)
  moreover assume "str_split1 d s = [a, b]"
  ultimately show ?thesis
    by (auto simp: str_split1_def split: if_splits)
qed

function convert_type :: "nat \<Rightarrow> string \<Rightarrow> py_error + string" where
  "convert_type depth ts_type0 =
     (if depth = 0 then Inl RecursionError
      else if ts_type0 = [] then Inr ''Any''
      else
        let ts_type = str_strip ts_type0 in
        if CHR ''|'' \<in> set ts_type
        then (case sequence_e (map (\<lambda>t. convert_type (depth - 1) (str_strip t))
                               (str_split CHR ''|'' ts_type)) of
                Inl e \<Rightarrow> Inl e
              | Inr types \<Rightarrow> Inr (''Union['' @ str_join '', '' types @ '']''))
        else
          (case map_of type_map ts_type of
             Some py \<Rightarrow> Inr py
           | None \<Rightarrow>
               if CHR ''<'' \<in> set ts_type \<and> CHR ''>'' \<in> set ts_type
               then
                 (case str_index CHR ''<'' ts_type of
                    Inl e \<Rightarrow> Inl e
                  | Inr i \<Rightarrow>
                 (case str_rindex CHR ''>'' ts_type of
                    Inl e \<Rightarrow> Inl e
                  | Inr j \<Rightarrow>
                      let base_type = take i ts_type;
                          inner_type = str_slice (i + 1) j ts_type
                      in
                      if base_type = ''Array''
                      then (case convert_type (depth - 1) inner_type of
                              Inl e \<Rightarrow> Inl e
                            | Inr t \<Rightarrow> Inr (''List['' @ t @ '']''))
                      else if base_type = ''Promise''
                      then (case convert_type (depth - 1) inner_type of
                              Inl e \<Rightarrow> Inl e
                            | Inr t \<Rightarrow> Inr (''Awaitable['' @ t @ '']''))
                      else if base_type = ''Record''
                      then (case str_split1 CHR '','' inner_type of
                              [key, val] \<Rightarrow>
                                (case convert_type (depth - 1) key of
                                   Inl e \<Rightarrow> Inl e
                                 | Inr k \<Rightarrow>
                                (case convert_type (depth - 1) val of
                                   Inl e \<Rightarrow> Inl e
                                 | Inr v \<Rightarrow> Inr (''Dict['' @ k @ '', '' @ v @ '']'')))
                            | _ \<Rightarrow> Inr ts_type)
                      else Inr ts_type))
               else Inr ts_type))"
  by pat_completeness auto
termination
proof (relation "measure (\<lambda>(depth, ts_type). length ts_type)", goal_cases)
  case 1
  show ?case by simp
next
  case (2 depth ts_type0 ts_type t)
  then show ?case
    using length_str_split_less [of "CHR ''|''" "str_strip ts_type0" t]
      length_str_strip [of t] length_str_strip [of ts_type0]
    by simp
next
  case (3 depth ts_type0 ts_type i j)
  then have "str_strip ts_type0 \<noteq> []" by auto
  then show ?case
    using length_str_slice_less [of "str_strip ts_type0" i j] length_str_strip [of ts_type0] 3
    by simp
next
  case (4 depth ts_type0 ts_type i j)
  then have "str_strip ts_type0 \<noteq> []" by auto
  then show ?case
    using length_str_slice_less [of "str_strip ts_type0" i j] length_str_strip [of ts_type0] 4
    by simp
next
  case (5 depth ts_type0 ts_type i j base inner key rest val rest')
  then have ne: "str_strip ts_type0 \<noteq> []" by auto
  from 5 have "length key \<le> length (str_slice (Suc i) j (str_strip ts_type0))"
    using length_str_split1 [of "CHR '',''" "str_slice (Suc i) j (str_strip ts_type0)" key val]
    by simp
  then show ?case
    using length_str_slice_less [OF ne, of i j] length_str_strip [of ts_type0]
    by simp
next
  case (6 depth ts_type0 ts_type i j base inner key rest val rest' k)
  then have ne: "str_strip ts_type0 \<noteq> []" by auto
  from 6 have "length val \<le> length (str_slice (Suc i) j (str_strip ts_type0))"
    using length_str_split1 [of "CHR '',''" "str_slice (Suc i) j (str_strip ts_type0)" key val]
    by simp
  then show ?case
    using length_str_slice_less [OF ne, of i j] length_str_strip [of ts_type0]
    by simp
qed


declare convert_type.simps [simp del]

text \<open>
  \<^verbatim>\<open>_convert_params\<close>. The unpacking \<^verbatim>\<open>name, ts_type = param.split(':', 1)\<close> raises
  \<^verbatim>\<open>ValueError\<close> unless the split gives two parts.
\<close>

definition convert_param :: "string \<Rightarrow> py_error + string" where
  "convert_param param0 =
     (let param = str_strip param0 in
      if CHR '':'' \<in> set param
      then (case str_split1 CHR '':'' param of
              [name, ts_type] \<Rightarrow>
                (case convert_type recursion_limit (str_strip ts_type) of
                   Inl e \<Rightarrow> Inl e
                 | Inr py_type \<Rightarrow> Inr (str_strip name @ '': '' @ py_type))
            | _ \<Rightarrow> Inl ValueError)
      else Inr param)"

definition convert_params :: "string \<Rightarrow> py_error + string" where
  "convert_params params =
     (if str_strip params = [] then Inr params
      else (case sequence_e (map convert_param (str_split CHR '','' params)) of
              Inl e \<Rightarrow> Inl e
            | Inr param_list \<Rightarrow> Inr (str_join '', '' param_list)))"

subsection \<open>Imports\<close>

text \<open>
  \<^verbatim>\<open>_convert_imports\<close>. The patterns are
  \<^verbatim>\<open>import\s+\{([^}]+)\}\s+from\s+[\'"]([^\'"]*)[\'"]\s*;?\<close>,
  \<^verbatim>\<open>import\s+(\w+)\s+from\s+[\'"]([^\'"]*)[\'"]\s*;?\<close> and
  \<^verbatim>\<open>const\s+(\w+)\s*=\s*require\([\'"]([^\'"]*)[\'"]\)\s*;?\<close>.
  Each replacement function calls \<^verbatim>\<open>m.group(2).replace\<close>, which raises on \<^verbatim>\<open>None\<close>.
\<close>

abbreviation quote :: re where "quote \<equiv> One (COneOf [SQ, DQ])"
abbreviation unquoted :: re where "unquoted \<equiv> Star (CNoneOf [SQ, DQ])"

definition re_import_named :: re where
  "re_import_named = seqs [Lit ''import'', ws1, Lit ''{'', Grp 1 (Plus (CNoneOf ''}'')), Lit ''}'',
     ws1, Lit ''from'', ws1, quote, Grp 2 unquoted, quote, ws0, Opt (Lit '';'')]"

definition re_import_default :: re where
  "re_import_default = seqs [Lit ''import'', ws1, Grp 1 word, ws1, Lit ''from'', ws1,
     quote, Grp 2 unquoted, quote, ws0, Opt (Lit '';'')]"

definition re_require :: re where
  "re_require = seqs [Lit ''const'', ws1, Grp 1 word, ws0, Lit ''='', ws0, Lit ''require('',
     quote, Grp 2 unquoted, quote, Lit '')'', ws0, Opt (Lit '';'')]"

definition import_named_repl :: "caps \<Rightarrow> py_error + string" where
  "import_named_repl m =
     (case m 2 of
        None \<Rightarrow> Inl AttributeError
      | Some g2 \<Rightarrow> Inr (''from '' @ str_replace ''/'' ''.'' g2 @ '' import '' @ py_str (m 1)))"

definition import_as_repl :: "caps \<Rightarrow> py_error + string" where
  "import_as_repl m =
     (case m 2 of
        None \<Rightarrow> Inl AttributeError
      | Some g2 \<Rightarrow> Inr (''import '' @ str_replace ''/'' ''.'' g2 @ '' as '' @ py_str (m 1)))"

definition convert_imports :: "string \<Rightarrow> py_error + string" where
  "convert_imports code =
     (case re_sub_err re_import_named import_named_repl code of
        Inl e \<Rightarrow> Inl e
      | Inr code1 \<Rightarrow>
     (case re_sub_err re_import_default import_as_repl code1 of
        Inl e \<Rightarrow> Inl e
      | Inr code2 \<Rightarrow> re_sub_err re_require import_as_repl code2))"

subsection \<open>Functions\<close>

text \<open>
  \<^verbatim>\<open>_convert_functions\<close>. The patterns are
  \<^verbatim>\<open>const\s+(\w+)\s*=\s*\(([^)]*)\)\s*=>\s*\{\<close>,
  \<^verbatim>\<open>const\s+(\w+)\s*=\s*async\s*\(([^)]*)\)\s*=>\s*\{\<close>,
  \<^verbatim>\<open>function\s+(\w+)\s*\(([^)]*)\)\s*(?::\s*([^\{]+))?\s*\{\<close> and
  \<^verbatim>\<open>async\s+function\s+(\w+)\s*\(([^)]*)\)\s*(?::\s*([^\{]+))?\s*\{\<close>.
  \<^verbatim>\<open>_convert_params\<close> calls \<^verbatim>\<open>params.strip()\<close>, which raises on \<^verbatim>\<open>None\<close>.
\<close>

abbreviation param_list :: re where
  "param_list \<equiv> seqs [Lit ''('', Grp 2 (Star (CNoneOf '')'')), Lit '')'']"

abbreviation return_annotation :: re where
  "return_annotation \<equiv> Opt (seqs [Lit '':'', ws0, Grp 3 (Plus (CNoneOf ''{''))])"

definition re_arrow_function :: re where
  "re_arrow_function = seqs [Lit ''const'', ws1, Grp 1 word, ws0, Lit ''='', ws0, param_list,
     ws0, Lit ''=>'', ws0, Lit ''{'']"

definition re_async_arrow_function :: re where
  "re_async_arrow_function = seqs [Lit ''const'', ws1, Grp 1 word, ws0, Lit ''='', ws0,
     Lit ''async'', ws0, param_list, ws0, Lit ''=>'', ws0, Lit ''{'']"

definition re_function :: re where
  "re_function = seqs [Lit ''function'', ws1, Grp 1 word, ws0, param_list, ws0,
     return_annotation, ws0, Lit ''{'']"

definition re_async_function :: re where
  "re_async_function = seqs [Lit ''async'', ws1, Lit ''function'', ws1, Grp 1 word, ws0,
     param_list, ws0, return_annotation, ws0, Lit ''{'']"

definition return_type_of :: "string option \<Rightarrow> py_error + string" where
  "return_type_of g3 =
     (case g3 of
        None \<Rightarrow> Inr ''Any''
      | Some t \<Rightarrow> if t = [] then Inr ''Any'' else convert_type recursion_limit t)"

definition convert_function :: "caps \<Rightarrow> py_error + string" where
  "convert_function m =
     (case m 2 of
        None \<Rightarrow> Inl AttributeError
      | Some g2 \<Rightarrow>
     (case convert_params g2 of
        Inl e \<Rightarrow> Inl e
      | Inr params \<Rightarrow>
     (case return_type_of (m 3) of
        Inl e \<Rightarrow> Inl e
      | Inr return_type \<Rightarrow>
          Inr (''def '' @ py_str (m 1) @ ''('' @ params @ '') -> '' @ return_type @ '':'' @ [NL]
               @ ''    __INDENT__''))))"

definition convert_async_function :: "caps \<Rightarrow> py_error + string" where
  "convert_async_function m =
     (case m 2 of
        None \<Rightarrow> Inl AttributeError
      | Some g2 \<Rightarrow>
     (case convert_params g2 of
        Inl e \<Rightarrow> Inl e
      | Inr params \<Rightarrow>
     (case return_type_of (m 3) of
        Inl e \<Rightarrow> Inl e
      | Inr return_type \<Rightarrow>
          Inr (''async def '' @ py_str (m 1) @ ''('' @ params @ '') -> '' @ return_type
               @ '':''))))"

definition convert_functions :: "string \<Rightarrow> py_error + string" where
  "convert_functions code =
     (let code1 = re_sub re_arrow_function [T ''def '', G 1, T ''('', G 2, T ''):''] code;
          code2 = re_sub re_async_arrow_function [T ''async def '', G 1, T ''('', G 2, T ''):'']
                    code1
      in case re_sub_err re_function convert_function code2 of
           Inl e \<Rightarrow> Inl e
         | Inr code3 \<Rightarrow> re_sub_err re_async_function convert_async_function code3)"

subsection \<open>Classes\<close>

text \<open>
  \<^verbatim>\<open>_convert_classes\<close>, patterns \<^verbatim>\<open>class\s+(\w+)\s*(?:extends\s+(\w+))?\s*\{\<close> and
  \<^verbatim>\<open>constructor\s*\(([^)]*)\)\s*\{\<close>.
\<close>

definition re_class :: re where
  "re_class = seqs [Lit ''class'', ws1, Grp 1 word, ws0,
     Opt (seqs [Lit ''extends'', ws1, Grp 2 word]), ws0, Lit ''{'']"

definition re_constructor :: re where
  "re_constructor = seqs [Lit ''constructor'', ws0, Lit ''('', Grp 1 (Star (CNoneOf '')'')),
     Lit '')'', ws0, Lit ''{'']"

definition class_repl :: "caps \<Rightarrow> string" where
  "class_repl m =
     ''class '' @ py_str (m 1) @ ''(''
       @ (case m 2 of None \<Rightarrow> ''object'' | Some b \<Rightarrow> if b = [] then ''object'' else b)
       @ ''):''"

definition constructor_repl :: "caps \<Rightarrow> string" where
  "constructor_repl m = ''def __init__(self, '' @ py_str (m 1) @ ''):''"

definition convert_classes :: "string \<Rightarrow> string" where
  "convert_classes code =
     re_sub_from re_constructor constructor_repl None (re_sub_from re_class class_repl None code)"


subsection \<open>Array methods\<close>

text \<open>
  \<^verbatim>\<open>_convert_array_methods\<close>. After \<^verbatim>\<open>\s*=>\s*\<close> is normalised to \<^verbatim>\<open> => \<close> and every
  semicolon is deleted, the patterns are
  \<^verbatim>\<open>(\w+)\.reduce\(\((\w+),\s*(\w+)\) => ([^,]+),\s*([^)]+)\)\<close>,
  \<^verbatim>\<open>(\w+)\.map\(\((\w+)\) => ([^)]+)\)\<close>, \<^verbatim>\<open>(\w+)\.map\((\w+) => ([^)]+)\)\<close>,
  the same two for \<^verbatim>\<open>filter\<close> and for \<^verbatim>\<open>find\<close>, and
  \<^verbatim>\<open>(\w+)\.forEach\(\((\w+)\) => \{\<close>, \<^verbatim>\<open>(\w+)\.forEach\((\w+) => \{\<close>.
\<close>

definition re_arrow :: re where
  "re_arrow = seqs [ws0, Lit ''=>'', ws0]"

definition re_reduce :: re where
  "re_reduce = seqs [Grp 1 word, Lit ''.reduce(('', Grp 2 word, Lit '','', ws0, Grp 3 word,
     Lit '') => '', Grp 4 (Plus (CNoneOf '','')), Lit '','', ws0, Grp 5 (Plus (CNoneOf '')'')),
     Lit '')'']"

definition re_method_paren :: "string \<Rightarrow> re" where
  "re_method_paren name = seqs [Grp 1 word, Lit ''.'', Lit name, Lit ''(('', Grp 2 word,
     Lit '') => '', Grp 3 (Plus (CNoneOf '')'')), Lit '')'']"

definition re_method_bare :: "string \<Rightarrow> re" where
  "re_method_bare name = seqs [Grp 1 word, Lit ''.'', Lit name, Lit ''('', Grp 2 word,
     Lit '' => '', Grp 3 (Plus (CNoneOf '')'')), Lit '')'']"

definition re_forEach_paren :: re where
  "re_forEach_paren = seqs [Grp 1 word, Lit ''.forEach(('', Grp 2 word, Lit '') => {'']"

definition re_forEach_bare :: re where
  "re_forEach_bare = seqs [Grp 1 word, Lit ''.forEach('', Grp 2 word, Lit '' => {'']"

definition map_template :: "tpart list" where
  "map_template = [T ''['', G 3, T '' for '', G 2, T '' in '', G 1, T '']'']"

definition filter_template :: "tpart list" where
  "filter_template = [T ''['', G 2, T '' for '', G 2, T '' in '', G 1, T '' if '', G 3, T '']'']"

definition forEach_template :: "tpart list" where
  "forEach_template = [T ''for '', G 2, T '' in '', G 1, T '':'']"

definition find_template :: "tpart list" where
  "find_template = [T ''next(('', G 2, T '' for '', G 2, T '' in '', G 1, T '' if '', G 3,
     T ''), None)'']"

definition reduce_template :: "tpart list" where
  "reduce_template = [T ''functools.reduce(lambda '', G 2, T '', '', G 3, T '': '', G 4,
     T '', '', G 1, T '', '', G 5, T '')'']"

definition convert_array_methods :: "string \<Rightarrow> string" where
  "convert_array_methods code =
     (let code = re_sub re_arrow [T '' => ''] code;
          code = str_replace '';'' [] code;
          code = re_sub re_reduce reduce_template code;
          code = re_sub (re_method_paren ''map'') map_template code;
          code = re_sub (re_method_bare ''map'') map_template code;
          code = re_sub (re_method_paren ''filter'') filter_template code;
          code = re_sub (re_method_bare ''filter'') filter_template code;
          code = re_sub re_forEach_paren forEach_template code;
          code = re_sub re_forEach_bare forEach_template code;
          code = re_sub (re_method_paren ''find'') find_template code;
          code = re_sub (re_method_bare ''find'') find_template code
      in code)"

subsection \<open>Variables\<close>

text \<open>
  \<^verbatim>\<open>_safe_var_name\<close> and \<^verbatim>\<open>_handle_var_declaration\<close>; the latter records a renaming in
  \<^verbatim>\<open>self.renamed_vars\<close>. The source declares \<^verbatim>\<open>name: str\<close>; the replacement functions pass
  \<^verbatim>\<open>m.group(1)\<close>, and a \<^verbatim>\<open>None\<close> there is taken as a \<^verbatim>\<open>TypeError\<close>.
\<close>

definition safe_var_name :: "string \<Rightarrow> string" where
  "safe_var_name name = (if name \<in> set python_keywords then name @ ''_var'' else name)"

definition handle_var_declaration ::
  "converter \<Rightarrow> string \<Rightarrow> string option \<Rightarrow> bool \<Rightarrow> py_error + string \<times> converter" where
  "handle_var_declaration self name type_str typed =
     (let safe_name = safe_var_name name;
          self1 = (if safe_name \<noteq> name
                   then self\<lparr>renamed_vars := AList.update name safe_name (renamed_vars self)\<rparr>
                   else self)
      in if typed \<and> type_str \<noteq> None \<and> type_str \<noteq> Some []
         then (case convert_type recursion_limit (the type_str) of
                 Inl e \<Rightarrow> Inl e
               | Inr t \<Rightarrow> Inr (safe_name @ '': '' @ t @ '' ='', self1))
         else Inr (safe_name @ '' = '', self1))"

definition typed_decl_repl :: "caps \<Rightarrow> converter \<Rightarrow> py_error + string \<times> converter" where
  "typed_decl_repl m self =
     (case m 1 of
        None \<Rightarrow> Inl TypeError
      | Some name \<Rightarrow> handle_var_declaration self name (m 2) True)"

definition untyped_decl_repl :: "caps \<Rightarrow> converter \<Rightarrow> py_error + string \<times> converter" where
  "untyped_decl_repl m self =
     (case m 1 of
        None \<Rightarrow> Inl TypeError
      | Some name \<Rightarrow> handle_var_declaration self name None False)"

text \<open>
  \<^verbatim>\<open>_convert_variables\<close>. The patterns are \<^verbatim>\<open>\b(const|let|var)\s+\<close>,
  \<^verbatim>\<open>(\w+)\s*:\s*([^=\n]+)\s*=\<close> and \<^verbatim>\<open>\b(\w+)\s*=\s*(?!=|>)\<close>. For every renamed name the
  loop protects \<^verbatim>\<open>\bNAME_var\s*=\s*NAME\(\<close>, replaces
  \<^verbatim>\<open>\bNAME\b(?!\s*=)(?!__PROTECTED__)\<close> and restores the protected text. A renamed name
  is one of \<^verbatim>\<open>python_keywords\<close>, so it stands for itself in these patterns.
\<close>

definition re_decl_keyword :: re where
  "re_decl_keyword = seqs [WordB, Grp 1 (Alt (Lit ''const'') (Alt (Lit ''let'') (Lit ''var''))),
     ws1]"

definition re_typed_decl :: re where
  "re_typed_decl = seqs [Grp 1 word, ws0, Lit '':'', ws0, Grp 2 (Plus (CNoneOf [CHR ''='', NL])),
     ws0, Lit ''='']"

definition re_untyped_decl :: re where
  "re_untyped_decl = seqs [WordB, Grp 1 word, ws0, Lit ''='', ws0,
     NotAhead (Alt (Lit ''='') (Lit ''>''))]"

definition re_self_call :: "string \<Rightarrow> re" where
  "re_self_call old_name = seqs [WordB, Lit old_name, Lit ''_var'', ws0, Lit ''='', ws0,
     Lit old_name, Lit ''('']"

definition re_usage :: "string \<Rightarrow> re" where
  "re_usage old_name = seqs [WordB, Lit old_name, WordB, NotAhead (Seq ws0 (Lit ''='')),
     NotAhead (Lit ''__PROTECTED__'')]"

definition rename_usages :: "string \<Rightarrow> string \<times> string \<Rightarrow> string" where
  "rename_usages code item =
     (case item of (old_name, new_name) \<Rightarrow>
        let code = re_sub (re_self_call old_name)
                     [T (old_name @ ''_var = '' @ old_name @ ''__PROTECTED__('')] code;
            code = re_sub (re_usage old_name) [T new_name] code;
            code = str_replace (old_name @ ''__PROTECTED__'') old_name code
        in code)"

definition convert_variables :: "converter \<Rightarrow> string \<Rightarrow> py_error + string \<times> converter" where
  "convert_variables self code =
     (let self0 = self\<lparr>renamed_vars := []\<rparr>;
          code0 = re_sub re_decl_keyword [] code
      in case re_sub_call re_typed_decl typed_decl_repl self0 code0 of
           Inl e \<Rightarrow> Inl e
         | Inr (code1, self1) \<Rightarrow>
        (case re_sub_call re_untyped_decl untyped_decl_repl self1 code1 of
           Inl e \<Rightarrow> Inl e
         | Inr (code2, self2) \<Rightarrow>
             Inr (foldl rename_usages code2 (renamed_vars self2), self2)))"

subsection \<open>Control structures\<close>

text \<open>
  \<^verbatim>\<open>_convert_control_structures\<close>, with the patterns, in this order,
  \<^verbatim>\<open>for\s*\(\s*(?:const|let|var)?\s*(\w+)\s+of\s+([^)]+)\)\s*\{\<close>,
  \<^verbatim>\<open>for\s*\(\s*(?:const|let|var)?\s*(\w+)\s+in\s+([^)]+)\)\s*\{\<close>,
  \<^verbatim>\<open>for\s*\(\s*(?:let|var)?\s*(\w+)\s*=\s*(\d+)\s*;\s*\1\s*<\s*([^;]+)\s*;\s*\1\+\+\s*\)\s*\{\<close>,
  \<^verbatim>\<open>if\s*\(([^)]+)\)\s*\{\<close>, \<^verbatim>\<open>}\s*else\s+if\s*\(([^)]+)\)\s*\{\<close>, \<^verbatim>\<open>}\s*else\s*\{\<close>,
  \<^verbatim>\<open>while\s*\(([^)]+)\)\s*\{\<close>, \<^verbatim>\<open>try\s*\{\<close>, \<^verbatim>\<open>}\s*catch\s*\((\w+)\)\s*\{\<close>,
  \<^verbatim>\<open>switch\s*\(([^)]+)\)\s*\{\<close>, \<^verbatim>\<open>case\s+([^:]+):\<close> and \<^verbatim>\<open>default:\<close>.
\<close>

abbreviation condition :: re where
  "condition \<equiv> seqs [Lit ''('', Grp 1 (Plus (CNoneOf '')'')), Lit '')'']"

definition re_for_each :: "string \<Rightarrow> re" where
  "re_for_each kw = seqs [Lit ''for'', ws0, Lit ''('', ws0,
     Opt (Alt (Lit ''const'') (Alt (Lit ''let'') (Lit ''var''))), ws0, Grp 1 word, ws1, Lit kw, ws1,
     Grp 2 (Plus (CNoneOf '')'')), Lit '')'', ws0, Lit ''{'']"

definition re_for_count :: re where
  "re_for_count = seqs [Lit ''for'', ws0, Lit ''('', ws0, Opt (Alt (Lit ''let'') (Lit ''var'')), ws0,
     Grp 1 word, ws0, Lit ''='', ws0, Grp 2 (Plus CDigit), ws0, Lit '';'', ws0, Back 1, ws0,
     Lit ''<'', ws0, Grp 3 (Plus (CNoneOf '';'')), ws0, Lit '';'', ws0, Back 1, Lit ''++'', ws0,
     Lit '')'', ws0, Lit ''{'']"

definition re_if :: re where
  "re_if = seqs [Lit ''if'', ws0, condition, ws0, Lit ''{'']"

definition re_else_if :: re where
  "re_else_if = seqs [Lit ''}'', ws0, Lit ''else'', ws1, Lit ''if'', ws0, condition, ws0, Lit ''{'']"

definition re_else :: re where
  "re_else = seqs [Lit ''}'', ws0, Lit ''else'', ws0, Lit ''{'']"

definition re_while :: re where
  "re_while = seqs [Lit ''while'', ws0, condition, ws0, Lit ''{'']"

definition re_try :: re where
  "re_try = seqs [Lit ''try'', ws0, Lit ''{'']"

definition re_catch :: re where
  "re_catch = seqs [Lit ''}'', ws0, Lit ''catch'', ws0, Lit ''('', Grp 1 word, Lit '')'', ws0,
     Lit ''{'']"

definition re_switch :: re where
  "re_switch = seqs [Lit ''switch'', ws0, condition, ws0, Lit ''{'']"

definition re_case :: re where
  "re_case = seqs [Lit ''case'', ws1, Grp 1 (Plus (CNoneOf '':'')), Lit '':'']"

definition re_default :: re where
  "re_default = Lit ''default:''"

definition convert_control_structures :: "string \<Rightarrow> string" where
  "convert_control_structures code =
     (let code = re_sub (re_for_each ''of'') [T ''for '', G 1, T '' in '', G 2, T '':''] code;
          code = re_sub (re_for_each ''in'') [T ''for '', G 1, T '' in '', G 2, T '':''] code;
          code = re_sub re_for_count
                   [T ''for '', G 1, T '' in range('', G 2, T '', '', G 3, T ''):''] code;
          code = re_sub re_if [T ''if '', G 1, T '':''] code;
          code = re_sub re_else_if [T ''elif '', G 1, T '':''] code;
          code = re_sub re_else [T ''else:''] code;
          code = re_sub re_while [T ''while '', G 1, T '':''] code;
          code = re_sub re_try [T ''try:''] code;
          code = re_sub re_catch [T ''except Exception as '', G 1, T '':''] code;
          code = re_sub re_switch
                   [T ''_switch_var = '', G 1, T [NL], T ''if False:  # switch''] code;
          code = re_sub re_case [T ''elif _switch_var == '', G 1, T '':''] code;
          code = re_sub re_default [T ''else:''] code
      in code)"


subsection \<open>Object literals\<close>

text \<open>
  \<^verbatim>\<open>_convert_object_literal\<close>: one pair per line of the content. The unpacking
  \<^verbatim>\<open>key, value = line.split(':', 1)\<close> raises \<^verbatim>\<open>ValueError\<close> unless the split gives two
  parts; \<^verbatim>\<open>content.strip()\<close> raises on \<^verbatim>\<open>None\<close>.
\<close>

definition object_pair :: "converter \<Rightarrow> string \<Rightarrow> py_error + string list" where
  "object_pair self line0 =
     (let line = str_strip line0 in
      if line = [] \<or> line = '','' then Inr []
      else
        let line = (if str_endswith line '','' then butlast line else line) in
        if CHR '':'' \<in> set line
        then (case str_split1 CHR '':'' line of
                [key0, value0] \<Rightarrow>
                  let key = str_strip key0;
                      val = str_strip value0;
                      key = (if \<not> (str_startswith key [DQ] \<or> str_startswith key [SQ])
                             then [DQ] @ key @ [DQ] else key);
                      val = (case map_of (renamed_vars self) val of
                               Some new_name \<Rightarrow> new_name
                             | None \<Rightarrow> val)
                  in Inr [key @ '': '' @ val]
              | _ \<Rightarrow> Inl ValueError)
        else Inr [])"

definition convert_object_literal :: "converter \<Rightarrow> string \<Rightarrow> py_error + string" where
  "convert_object_literal self content =
     (case sequence_e (map (object_pair self) (str_split NL (str_strip content))) of
        Inl e \<Rightarrow> Inl e
      | Inr pairs \<Rightarrow> Inr (''{'' @ str_join '', '' (concat pairs) @ ''}''))"

text \<open>
  \<^verbatim>\<open>_convert_objects\<close>, patterns \<^verbatim>\<open>return\s*\{([^}]+)\}\<close> and \<^verbatim>\<open>=\s*\{([^}]+)\}\<close>.
\<close>

definition re_return_object :: re where
  "re_return_object = seqs [Lit ''return'', ws0, Lit ''{'', Grp 1 (Plus (CNoneOf ''}'')), Lit ''}'']"

definition re_assign_object :: re where
  "re_assign_object = seqs [Lit ''='', ws0, Lit ''{'', Grp 1 (Plus (CNoneOf ''}'')), Lit ''}'']"

definition object_repl :: "converter \<Rightarrow> string \<Rightarrow> caps \<Rightarrow> py_error + string" where
  "object_repl self lead m =
     (case m 1 of
        None \<Rightarrow> Inl AttributeError
      | Some content \<Rightarrow>
          (case convert_object_literal self content of
             Inl e \<Rightarrow> Inl e
           | Inr d \<Rightarrow> Inr (lead @ d)))"

definition convert_objects :: "converter \<Rightarrow> string \<Rightarrow> py_error + string" where
  "convert_objects self code =
     (case re_sub_err re_return_object (object_repl self ''return '') code of
        Inl e \<Rightarrow> Inl e
      | Inr code1 \<Rightarrow> re_sub_err re_assign_object (object_repl self ''= '') code1)"

subsection \<open>Common methods\<close>

text \<open>
  \<^verbatim>\<open>_convert_common_methods\<close>: \<^verbatim>\<open>\.\.\.(\w+)\<close>, \<^verbatim>\<open>(\w+)\.length\b\<close>, then for each entry
  of \<^verbatim>\<open>method_map\<close> in its order the replacement of \<^verbatim>\<open>\bKEY\b\<close> unless \<^verbatim>\<open>\bKEY_var\b\<close> is
  found (the key escaped by \<^verbatim>\<open>re.escape\<close>, so literal), then
  \<^verbatim>\<open>(\w+)\.toLowerCase\(\)\<close>, \<^verbatim>\<open>(\w+)\.toUpperCase\(\)\<close>, and
  \<^verbatim>\<open>(\w+)\s*===\s*undefined\<close>, \<^verbatim>\<open>(\w+)\s*===\s*null\<close>, \<^verbatim>\<open>(\w+)\s*!==\s*undefined\<close>,
  \<^verbatim>\<open>(\w+)\s*!==\s*null\<close>.
\<close>

definition re_spread :: re where
  "re_spread = seqs [Lit ''...'', Grp 1 word]"

definition re_length :: re where
  "re_length = seqs [Grp 1 word, Lit ''.length'', WordB]"

definition replace_method :: "string \<Rightarrow> string \<times> string \<Rightarrow> string" where
  "replace_method code item =
     (case item of (js_method, py_method) \<Rightarrow>
        if \<not> re_search (seqs [WordB, Lit js_method, Lit ''_var'', WordB]) code
        then re_sub (seqs [WordB, Lit js_method, WordB]) [T py_method] code
        else code)"

definition re_call0 :: "string \<Rightarrow> re" where
  "re_call0 name = seqs [Grp 1 word, Lit ''.'', Lit name, Lit ''()'']"

definition re_compare :: "string \<Rightarrow> string \<Rightarrow> re" where
  "re_compare op rhs = seqs [Grp 1 word, ws0, Lit op, ws0, Lit rhs]"

definition convert_common_methods :: "string \<Rightarrow> string" where
  "convert_common_methods code =
     (let code = re_sub re_spread [T ''*'', G 1] code;
          code = re_sub re_length [T ''len('', G 1, T '')''] code;
          code = foldl replace_method code method_map;
          code = re_sub (re_call0 ''toLowerCase'') [G 1, T ''.lower()''] code;
          code = re_sub (re_call0 ''toUpperCase'') [G 1, T ''.upper()''] code;
          code = re_sub (re_compare ''==='' ''undefined'') [G 1, T '' is None''] code;
          code = re_sub (re_compare ''==='' ''null'') [G 1, T '' is None''] code;
          code = re_sub (re_compare ''!=='' ''undefined'') [G 1, T '' is not None''] code;
          code = re_sub (re_compare ''!=='' ''null'') [G 1, T '' is not None''] code
      in code)"

subsection \<open>Operators\<close>

text \<open>
  \<^verbatim>\<open>_convert_operators\<close>: four calls of \<^verbatim>\<open>str.replace\<close>, then \<^verbatim>\<open>!\s*(\w+)\<close>,
  \<^verbatim>\<open>(\w+)\+\+\<close>, \<^verbatim>\<open>(\w+)--\<close> and the template literals, a backquoted text with one
  \<^verbatim>\<open>${...}\<close> and then any backquoted text.
\<close>

definition re_not :: re where
  "re_not = seqs [Lit ''!'', ws0, Grp 1 word]"

definition re_increment :: re where
  "re_increment = seqs [Grp 1 word, Lit ''++'']"

definition re_decrement :: re where
  "re_decrement = seqs [Grp 1 word, Lit ''--'']"

definition re_template_expr :: re where
  "re_template_expr = seqs [Lit [BQ], Grp 1 (Star (CNoneOf [BQ])), Lit ''${'',
     Grp 2 (Plus (CNoneOf ''}'')), Lit ''}'', Grp 3 (Star (CNoneOf [BQ])), Lit [BQ]]"

definition re_template :: re where
  "re_template = seqs [Lit [BQ], Grp 1 (Star (CNoneOf [BQ])), Lit [BQ]]"

definition convert_operators :: "string \<Rightarrow> string" where
  "convert_operators code =
     (let code = str_replace ''==='' ''=='' code;
          code = str_replace ''!=='' ''!='' code;
          code = str_replace ''&&'' ''and'' code;
          code = str_replace ''||'' ''or'' code;
          code = re_sub re_not [T ''not '', G 1] code;
          code = re_sub re_increment [G 1, T '' += 1''] code;
          code = re_sub re_decrement [G 1, T '' -= 1''] code;
          code = re_sub re_template_expr [T ''f'', T [DQ], G 1, T ''{'', G 2, T ''}'', G 3, T [DQ]]
                   code;
          code = re_sub re_template [T [DQ], G 1, T [DQ]] code
      in code)"

subsection \<open>Cleanup\<close>

text \<open>
  \<^verbatim>\<open>_cleanup_code\<close>. Comments \<^verbatim>\<open>//\s*(.*)\<close> become \<^verbatim>\<open>#\<close> comments; a line keeps its braces
  if it has \<^verbatim>\<open>return\<close> and \<^verbatim>\<open>{\<close>, or \<^verbatim>\<open>:\<close> and \<^verbatim>\<open>{\<close>; otherwise a line that is one brace
  is dropped and the braces of any other line are deleted. Semicolons are deleted, and
  \<^verbatim>\<open>(if|for|while)\s+(.+)\s*\n\<close> gets a colon.
\<close>

definition re_comment :: re where
  "re_comment = seqs [Lit ''//'', ws0, Grp 1 (Star CDot)]"

definition re_block_keyword :: re where
  "re_block_keyword = Grp 1 (Alt (Lit ''if'') (Alt (Lit ''for'') (Lit ''while'')))"

definition re_missing_colon :: re where
  "re_missing_colon = seqs [re_block_keyword, ws1, Grp 2 (Plus CDot), ws0, Lit [NL]]"

definition strip_braces :: "string \<Rightarrow> string list" where
  "strip_braces line =
     (if (str_contains line ''return'' \<and> CHR ''{'' \<in> set line)
         \<or> (CHR '':'' \<in> set line \<and> CHR ''{'' \<in> set line)
      then [line]
      else if str_strip line = ''{'' \<or> str_strip line = ''}'' then []
      else [str_replace ''}'' [] (str_replace ''{'' [] line)])"

text \<open>
  The indentation loop of \<^verbatim>\<open>_cleanup_code\<close>. Its state is the counter \<^verbatim>\<open>indent_level\<close> and
  the list \<^verbatim>\<open>cleaned_lines\<close>. The counter is a Python \<^verbatim>\<open>int\<close>.
\<close>

definition starts_branch :: "string \<Rightarrow> bool" where
  "starts_branch stripped =
     (str_startswith stripped ''elif'' \<or> str_startswith stripped ''else''
      \<or> str_startswith stripped ''except'' \<or> str_startswith stripped ''finally'')"

definition dedent_before :: "string \<Rightarrow> int \<Rightarrow> int" where
  "dedent_before stripped indent_level =
     (if starts_branch stripped then max 0 (indent_level - 1) else indent_level)"

definition opens_block :: "string \<Rightarrow> bool" where
  "opens_block stripped =
     (str_endswith stripped '':''
      \<and> \<not> (str_endswith stripped [DQ, CHR '':''] \<or> str_endswith stripped [SQ, CHR '':'']
             \<or> str_startswith stripped ''#''))"

definition indent_after :: "string \<Rightarrow> int \<Rightarrow> int" where
  "indent_after stripped indent_level =
     (if opens_block stripped then indent_level + 1 else indent_level)"

definition indentation :: "int \<Rightarrow> string" where
  "indentation indent_level = concat (replicate (nat indent_level) ''    '')"

definition indent_step :: "int \<times> string list \<Rightarrow> string \<Rightarrow> int \<times> string list" where
  "indent_step st line =
     (case st of (indent_level, cleaned_lines) \<Rightarrow>
        let stripped = str_strip line in
        if stripped = [] then (indent_level, cleaned_lines @ [[]])
        else
          let indent_level = dedent_before stripped indent_level in
          if str_contains stripped ''__INDENT__'' then (indent_level, cleaned_lines)
          else (indent_after stripped indent_level,
                cleaned_lines @ [indentation indent_level @ stripped]))"

definition indent_loop :: "string list \<Rightarrow> int \<times> string list" where
  "indent_loop lines = foldl indent_step (0, []) lines"

definition cleanup_code :: "string \<Rightarrow> string" where
  "cleanup_code code =
     (let code = re_sub re_comment [T ''# '', G 1] code;
          processed_lines = concat (map strip_braces (str_split NL code));
          code = str_join [NL] processed_lines;
          code = str_replace '';'' [] code;
          code = re_sub re_missing_colon [G 1, T '' '', G 2, T '':'', T [NL]] code
      in str_join [NL] (snd (indent_loop (str_split NL code))))"


subsection \<open>Post-processing\<close>

text \<open>
  \<^verbatim>\<open>_post_process\<close>: the comment pattern again, then
  \<^verbatim>\<open>(if|for|while)\s+([^:]+)\s*(?<!\:)$\<close> under \<^verbatim>\<open>re.MULTILINE\<close>, then
  \<^verbatim>\<open>(\w+):\s*\n\s*\n\<close>, then the loop over \<^verbatim>\<open>range(len(lines)-1)\<close> that moves the line after a
  \<^verbatim>\<open>return\<close> under it. The loop reads \<^verbatim>\<open>lines[i]\<close> and \<^verbatim>\<open>lines[i+1]\<close> and writes
  \<^verbatim>\<open>lines[i+1]\<close>.
\<close>

definition re_colon_at_eol :: re where
  "re_colon_at_eol = seqs [re_block_keyword, ws1, Grp 2 (Plus (CNoneOf '':'')), ws0,
     NotBehind CHR '':'', Eol]"

definition re_empty_block :: re where
  "re_empty_block = seqs [Grp 1 word, Lit '':'', ws0, Lit [NL], ws0, Lit [NL]]"

definition fix_return_at :: "nat \<Rightarrow> string list \<Rightarrow> py_error + string list" where
  "fix_return_at i lines =
     (case py_nth lines i of
        Inl e \<Rightarrow> Inl e
      | Inr line \<Rightarrow>
          if \<not> str_startswith (str_strip line) ''return '' then Inr lines
          else
            (case py_nth lines (i + 1) of
               Inl e \<Rightarrow> Inl e
             | Inr next_line \<Rightarrow>
                 if starts_branch (str_strip next_line) then Inr lines
                 else if int i < int (length lines) - 2 \<and> str_strip next_line \<noteq> []
                         \<and> \<not> str_startswith next_line '' ''
                 then
                   let indent_level = length line - length (str_lstrip line)
                   in Inr (lines[i + 1 := replicate indent_level CHR '' '' @ str_lstrip next_line])
                 else Inr lines))"

fun fix_returns :: "nat list \<Rightarrow> string list \<Rightarrow> py_error + string list" where
  "fix_returns [] lines = Inr lines"
| "fix_returns (i # is) lines =
     (case fix_return_at i lines of
        Inl e \<Rightarrow> Inl e
      | Inr lines' \<Rightarrow> fix_returns is lines')"

definition post_process :: "string \<Rightarrow> py_error + string" where
  "post_process python_code =
     (let python_code = re_sub re_comment [T ''# '', G 1] python_code;
          python_code = re_sub re_colon_at_eol [G 1, T '' '', G 2, T '':''] python_code;
          python_code = re_sub re_empty_block [G 1, T '':'', T [NL], T ''    pass'', T [NL, NL]]
                          python_code;
          lines = str_split NL python_code
      in case fix_returns [0 ..< length lines - 1] lines of
           Inl e \<Rightarrow> Inl e
         | Inr lines' \<Rightarrow> Inr (str_join [NL] lines'))"

subsection \<open>Synthesised imports\<close>

text \<open>\<^verbatim>\<open>_generate_imports\<close>: each line is decided by substring tests on the code.\<close>

definition typing_hints :: "string list" where
  "typing_hints = [''List['', ''Dict['', ''Any'', ''Union['', ''Optional['', ''Awaitable['']"

definition typing_import :: string where
  "typing_import = ''from typing import List, Dict, Any, Union, Optional, Awaitable''"

definition import_lines :: "string \<Rightarrow> string list" where
  "import_lines code =
     (if list_ex (str_contains code) typing_hints then [typing_import] else [])
     @ (if str_contains code ''async def'' \<or> str_contains code ''await''
        then [''import asyncio''] else [])
     @ (if str_contains code ''math.'' then [''import math''] else [])
     @ (if str_contains code ''random.'' then [''import random''] else [])
     @ (if str_contains code ''json.'' then [''import json''] else [])
     @ (if str_contains code ''functools.reduce'' then [''import functools''] else [])"

definition generate_imports :: "string \<Rightarrow> string" where
  "generate_imports code = str_join [NL] (import_lines code)"

subsection \<open>The pipeline\<close>

text \<open>
  \<^verbatim>\<open>convert\<close> runs the passes in their order on the converter \<^verbatim>\<open>self\<close>; \<^verbatim>\<open>js_to_python\<close>
  makes a new converter for every call.
\<close>

definition add_imports :: "string \<Rightarrow> string" where
  "add_imports python_code =
     (let imports = generate_imports python_code in
      if imports \<noteq> [] then imports @ [NL, NL] @ python_code else python_code)"

definition convert :: "converter \<Rightarrow> string \<Rightarrow> py_error + string \<times> converter" where
  "convert self js_code =
     (case extract_decorators js_code of (decorators, js_code) \<Rightarrow>
     (case convert_imports js_code of
        Inl e \<Rightarrow> Inl e
      | Inr python_code \<Rightarrow>
     (case convert_functions python_code of
        Inl e \<Rightarrow> Inl e
      | Inr python_code \<Rightarrow>
     (case convert_variables self (convert_array_methods (convert_classes python_code)) of
        Inl e \<Rightarrow> Inl e
      | Inr (python_code, self) \<Rightarrow>
     (case convert_objects self (convert_control_structures python_code) of
        Inl e \<Rightarrow> Inl e
      | Inr python_code \<Rightarrow>
     (case post_process
             (cleanup_code (convert_operators (convert_common_methods python_code))) of
        Inl e \<Rightarrow> Inl e
      | Inr python_code \<Rightarrow> Inr (add_imports python_code, self)))))))"

definition js_to_python :: "string \<Rightarrow> py_error + string" where
  "js_to_python js_code =
     (case convert new_converter js_code of
        Inl e \<Rightarrow> Inl e
      | Inr (python_code, self) \<Rightarrow> Inr python_code)"


section \<open>Evaluating the character classes\<close>

text \<open>The classes decided on the bits of a character, for evaluation.\<close>

lemma is_word_bits [code]:
  "is_word (Char b0 b1 b2 b3 b4 b5 b6 b7) =
     (if b7 then (if b6 then (if b5 then (if b4 then (if b3 then True else (if b2 then (if
     b1 then \<not> b0 else True) else True)) else True) else (if b4 then (if b3 then True
     else (if b2 then (if b1 then \<not> b0 else True) else True)) else True)) else (if b5
     then (if b4 then (if b3 then (if b2 then (if b1 then \<not> b0 else True) else (if b1
     then \<not> b0 else b0)) else (if b2 then (if b1 then False else b0) else b1)) else (if
     b3 then (if b2 then False else (if b1 then \<not> b0 else False)) else False)) else
     False)) else (if b6 then (if b5 then (if b4 then (if b3 then (if b2 then False else (if
     b1 then \<not> b0 else True)) else True) else (if b3 then True else (if b2 then True
     else (if b1 then True else b0)))) else (if b4 then (if b3 then (if b2 then (if b1 then
     b0 else False) else (if b1 then \<not> b0 else True)) else True) else (if b3 then True
     else (if b2 then True else (if b1 then True else b0))))) else (if b5 then (if b4 then
     (if b3 then (if b2 then False else \<not> b1) else True) else False) else False)))"
  by (cases b0; cases b1; cases b2; cases b3; cases b4; cases b5; cases b6; cases b7;
      simp add: is_word_def)

lemma is_space_bits [code]:
  "is_space (Char b0 b1 b2 b3 b4 b5 b6 b7) =
     (if b7 then (if b6 then False else (if b5 then (if b4 then False else (if b3 then False
     else (if b2 then False else (if b1 then False else \<not> b0)))) else (if b4 then False
     else (if b3 then False else (if b2 then (if b1 then False else b0) else False))))) else
     (if b6 then False else (if b5 then (if b4 then False else (if b3 then False else (if b2
     then False else (if b1 then False else \<not> b0)))) else (if b4 then (if b3 then b2
     else False) else (if b3 then (if b2 then \<not> b1 else (if b1 then True else b0)) else
     False)))))"
  by (cases b0; cases b1; cases b2; cases b3; cases b4; cases b5; cases b6; cases b7;
      simp add: is_space_def)

lemma is_digit_bits [code]:
  "is_digit (Char b0 b1 b2 b3 b4 b5 b6 b7) =
     (if b7 then False else (if b6 then False else (if b5 then (if b4 then (if b3 then (if
     b2 then False else \<not> b1) else True) else False) else False)))"
  by (cases b0; cases b1; cases b2; cases b3; cases b4; cases b5; cases b6; cases b7;
      simp add: is_digit_def)


section \<open>What a match can capture\<close>

text \<open>
  \<open>sets n r\<close>: every match of \<open>r\<close> captures group \<open>n\<close>. \<open>reach s0 st\<close>: the state \<open>st\<close> is a
  position in the subject \<open>s0\<close> and its groups hold characters of \<open>s0\<close> only.
\<close>

fun sets :: "nat \<Rightarrow> re \<Rightarrow> bool" where
  "sets n (Grp m a) = (m = n \<or> sets n a)"
| "sets n (Seq a b) = (sets n a \<or> sets n b)"
| "sets n (Alt a b) = (sets n a \<and> sets n b)"
| "sets n r = False"

definition reach :: "string \<Rightarrow> mstate \<Rightarrow> bool" where
  "reach s0 st = (case st of (p, s, k, c) \<Rightarrow>
     s = drop k s0 \<and> (\<forall>n g. c n = Some g \<longrightarrow> set g \<subseteq> set s0))"

definition keeps :: "mstate \<Rightarrow> mstate \<Rightarrow> bool" where
  "keeps st st' = (case st of (p, s, k, c) \<Rightarrow> case st' of (p', s', k', c') \<Rightarrow>
     k \<le> k' \<and> (\<forall>n. c n \<noteq> None \<longrightarrow> c' n \<noteq> None))"

lemma keeps_refl [simp]: "keeps st st"
  by (auto simp: keeps_def split: prod.splits)

lemma keeps_trans: "keeps a b \<Longrightarrow> keeps b c \<Longrightarrow> keeps a c"
  by (auto simp: keeps_def split: prod.splits)

lemma star_Some:
  "star cl K (p, s, k, c) = Some res \<Longrightarrow> reach s0 (p, s, k, c) \<Longrightarrow>
   \<exists>p' s' k'. K (p', s', k', c) = Some res \<and> reach s0 (p', s', k', c) \<and> k \<le> k'"
proof (induction s arbitrary: p k)
  case Nil
  then show ?case by auto
next
  case (Cons x xs)
  show ?case
  proof (cases "in_cls cl x \<and> star cl K (Some x, xs, Suc k, c) \<noteq> None")
    case True
    then obtain r where r: "star cl K (Some x, xs, Suc k, c) = Some r" by auto
    with True Cons.prems have "r = res" by simp
    moreover have "reach s0 (Some x, xs, Suc k, c)"
      using Cons.prems(2) by (auto simp: reach_def drop_Suc dest: arg_cong [where f = tl] simp: drop_tl[symmetric])
    ultimately obtain p' s' k' where "K (p', s', k', c) = Some res" "reach s0 (p', s', k', c)" "Suc k \<le> k'"
      using Cons.IH [of "Some x" "Suc k"] r by blast
    then show ?thesis by (intro exI [of _ p'] exI [of _ s'] exI [of _ k']) auto
  next
    case False
    with Cons.prems have "K (p, x # xs, k, c) = Some res"
      by (auto split: if_splits option.splits)
    with Cons.prems show ?thesis by blast
  qed
qed


lemma lit_Some:
  "lit t K (p, s, k, c) = Some res \<Longrightarrow> reach s0 (p, s, k, c) \<Longrightarrow>
   \<exists>p' s' k'. K (p', s', k', c) = Some res \<and> reach s0 (p', s', k', c) \<and> k \<le> k'"
proof (induction t arbitrary: p s k)
  case Nil
  then show ?case by auto
next
  case (Cons a t)
  from Cons.prems(1) obtain xs where s: "s = a # xs" and l: "lit t K (Some a, xs, Suc k, c) = Some res"
    by (cases s) (auto split: if_splits)
  have "reach s0 (Some a, xs, Suc k, c)"
    using Cons.prems(2) s by (auto simp: reach_def drop_Suc drop_tl [symmetric] dest: arg_cong [where f = tl])
  from Cons.IH [OF l this] obtain p' s' k' where
    "K (p', s', k', c) = Some res" "reach s0 (p', s', k', c)" "Suc k \<le> k'" by blast
  then show ?case by (intro exI [of _ p'] exI [of _ s'] exI [of _ k']) auto
qed

definition caps_of :: "mstate \<Rightarrow> caps" where
  "caps_of st = snd (snd (snd st))"

lemma rm_Some:
  "rm r K st = Some res \<Longrightarrow> reach s0 st \<Longrightarrow>
   \<exists>st'. K st' = Some res \<and> reach s0 st' \<and> keeps st st' \<and> (\<forall>n. sets n r \<longrightarrow> caps_of st' n \<noteq> None)"
proof (induction r arbitrary: K st res)
  case (One cl)
  obtain p s k c where st: "st = (p, s, k, c)" by (cases st) auto
  with One obtain x xs where s: "s = x # xs" and K: "K (Some x, xs, Suc k, c) = Some res"
    by (cases s) (auto split: if_splits)
  have "reach s0 (Some x, xs, Suc k, c)"
    using One.prems(2) s st by (auto simp: reach_def drop_Suc drop_tl [symmetric] dest: arg_cong [where f = tl])
  with K show ?case unfolding st by (intro exI [of _ "(Some x, xs, Suc k, c)"]) (auto simp: keeps_def)
next
  case (Star cl)
  obtain p s k c where st: "st = (p, s, k, c)" by (cases st) auto
  from Star star_Some [of cl K p s k c res s0] show ?case
    unfolding st by (fastforce simp: keeps_def)
next
  case (Plus cl)
  obtain p s k c where st: "st = (p, s, k, c)" by (cases st) auto
  with Plus obtain x xs where s: "s = x # xs" and K: "star cl K (Some x, xs, Suc k, c) = Some res"
    by (cases s) (auto split: if_splits)
  have "reach s0 (Some x, xs, Suc k, c)"
    using Plus.prems(2) s st by (auto simp: reach_def drop_Suc drop_tl [symmetric] dest: arg_cong [where f = tl])
  from star_Some [OF K this] show ?case
    unfolding st by (fastforce simp: keeps_def)
next
  case (Lit t)
  obtain p s k c where st: "st = (p, s, k, c)" by (cases st) auto
  from Lit lit_Some [of t K p s k c res s0] show ?case
    unfolding st by (fastforce simp: keeps_def)
next
  case (Seq a b)
  from Seq.prems have "rm a (rm b K) st = Some res" by simp
  from Seq.IH(1) [OF this Seq.prems(2)] obtain st1 where
    1: "rm b K st1 = Some res" "reach s0 st1" "keeps st st1" "\<forall>n. sets n a \<longrightarrow> caps_of st1 n \<noteq> None"
    by blast
  from Seq.IH(2) [OF 1(1) 1(2)] obtain st2 where
    2: "K st2 = Some res" "reach s0 st2" "keeps st1 st2" "\<forall>n. sets n b \<longrightarrow> caps_of st2 n \<noteq> None"
    by blast
  have "\<forall>n. sets n a \<longrightarrow> caps_of st2 n \<noteq> None"
    using 1(4) 2(3) by (cases st1; cases st2) (auto simp: keeps_def caps_of_def)
  with 2 keeps_trans [OF 1(3) 2(3)] show ?case
    by (intro exI [of _ st2]) auto
next
  case (Alt a b)
  show ?case
  proof (cases "rm a K st")
    case None
    with Alt.prems have "rm b K st = Some res" by simp
    from Alt.IH(2) [OF this Alt.prems(2)] obtain st' where
      "K st' = Some res" "reach s0 st'" "keeps st st'" "\<forall>n. sets n b \<longrightarrow> caps_of st' n \<noteq> None"
      by blast
    then show ?thesis by (intro exI [of _ st']) simp
  next
    case (Some r)
    with Alt.prems have "rm a K st = Some res" by simp
    from Alt.IH(1) [OF this Alt.prems(2)] obtain st' where
      "K st' = Some res" "reach s0 st'" "keeps st st'" "\<forall>n. sets n a \<longrightarrow> caps_of st' n \<noteq> None"
      by blast
    then show ?thesis by (intro exI [of _ st']) simp
  qed
next
  case (Opt a)
  show ?case
  proof (cases "rm a K st")
    case None
    with Opt.prems have "K st = Some res" by simp
    with Opt.prems(2) show ?thesis by (intro exI [of _ st]) auto
  next
    case (Some r)
    with Opt.prems have "rm a K st = Some res" by simp
    from Opt.IH [OF this Opt.prems(2)] obtain st' where
      "K st' = Some res" "reach s0 st'" "keeps st st'"
      by blast
    then show ?thesis by (intro exI [of _ st']) simp
  qed
next
  case (Grp m a)
  obtain p s k c where st: "st = (p, s, k, c)" by (cases st) auto
  let ?K = "\<lambda>(p', s', k', c'). K (p', s', k', c'(m := Some (take (k' - k) s)))"
  from Grp.prems st have "rm a ?K st = Some res" by simp
  from Grp.IH [OF this Grp.prems(2)] obtain st1 where
    1: "?K st1 = Some res" "reach s0 st1" "keeps st st1" "\<forall>n. sets n a \<longrightarrow> caps_of st1 n \<noteq> None"
    by blast
  obtain p1 s1 k1 c1 where st1: "st1 = (p1, s1, k1, c1)" by (cases st1) auto
  let ?st2 = "(p1, s1, k1, c1(m := Some (take (k1 - k) s)))"
  have "set (take (k1 - k) s) \<subseteq> set s0"
    using Grp.prems(2) st by (auto simp: reach_def dest!: in_set_takeD in_set_dropD)
  then have "reach s0 ?st2"
    using 1(2) st1 by (auto simp: reach_def)
  moreover have "K ?st2 = Some res" using 1(1) st1 by simp
  moreover have "keeps st ?st2" using 1(3) st st1 by (auto simp: keeps_def)
  moreover have "\<forall>n. sets n (Grp m a) \<longrightarrow> caps_of ?st2 n \<noteq> None"
    using 1(4) st1 by (auto simp: caps_of_def)
  ultimately show ?case by blast
next
  case (Back n)
  obtain p s k c where st: "st = (p, s, k, c)" by (cases st) auto
  with Back obtain g where "lit g K (p, s, k, c) = Some res"
    by (auto split: option.splits)
  from lit_Some [OF this] Back.prems(2) show ?case
    unfolding st by (fastforce simp: keeps_def)
next
  case WordB
  then have "K st = Some res" by (cases st) (auto split: if_splits)
  with WordB.prems(2) show ?case by (intro exI [of _ st]) simp
next
  case (NotAhead a)
  then have "K st = Some res" by (auto split: option.splits)
  with NotAhead.prems(2) show ?case by (intro exI [of _ st]) simp
next
  case (NotBehind x)
  then have "K st = Some res" by (cases st) (auto split: if_splits)
  with NotBehind.prems(2) show ?case by (intro exI [of _ st]) simp
next
  case Eol
  then have "K st = Some res" by (cases st) (auto split: if_splits list.splits)
  with Eol.prems(2) show ?case by (intro exI [of _ st]) simp
qed


lemma match_here_Some:
  assumes "match_here r p s = Some (p', s', k, c)"
  shows "(\<forall>n g. c n = Some g \<longrightarrow> set g \<subseteq> set s) \<and> (\<forall>n. sets n r \<longrightarrow> c n \<noteq> None)"
proof -
  have "reach s (p, s, 0, no_caps)" by (simp add: reach_def)
  with assms rm_Some [of r Some "(p, s, 0, no_caps)" "(p', s', k, c)" s]
  show ?thesis by (auto simp: match_here_def reach_def caps_of_def)
qed

fun tlits :: "tpart list \<Rightarrow> char set" where
  "tlits [] = {}"
| "tlits (T s # ts) = set s \<union> tlits ts"
| "tlits (G n # ts) = tlits ts"

lemma set_expand:
  "(\<forall>n g. c n = Some g \<longrightarrow> set g \<subseteq> A) \<Longrightarrow> tlits t \<subseteq> A \<Longrightarrow> set (expand t c) \<subseteq> A"
proof (induction t c rule: expand.induct)
  case (3 n ts c)
  then have "set (expand ts c) \<subseteq> A" by simp
  moreover have "set (case c n of None \<Rightarrow> [] | Some g \<Rightarrow> g) \<subseteq> A"
    using "3.prems"(1) by (cases "c n") auto
  ultimately show ?case by simp
qed auto

lemma set_re_sub_from:
  "(\<And>c. (\<forall>n g. c n = Some g \<longrightarrow> set g \<subseteq> A) \<Longrightarrow> set (f c) \<subseteq> A) \<Longrightarrow> set s \<subseteq> A
   \<Longrightarrow> set (re_sub_from r f p s) \<subseteq> A"
proof (induction r f p s rule: re_sub_from.induct)
  case (1 r f p)
  show ?case
  proof (cases "match_here r p []")
    case None
    then show ?thesis by simp
  next
    case (Some m)
    obtain p' s' k c where m: "m = (p', s', k, c)" by (cases m) auto
    from match_here_Some [OF Some [unfolded m]] have "\<forall>n g. c n = Some g \<longrightarrow> set g \<subseteq> A"
      by fastforce
    from "1.prems"(1) [OF this] Some m show ?thesis by simp
  qed
next
  case (2 r f p x xs)
  show ?case
  proof (cases "match_here r p (x # xs)")
    case None
    with 2 show ?thesis by simp
  next
    case (Some m)
    obtain p' s' k c where m: "m = (p', s', k, c)" by (cases m) auto
    from match_here_Some [OF Some [unfolded m]] "2.prems"(2)
    have "\<forall>n g. c n = Some g \<longrightarrow> set g \<subseteq> A" by blast
    from "2.prems"(1) [OF this] have fc: "set (f c) \<subseteq> A" .
    show ?thesis
    proof (cases "k = 0")
      case True
      with 2 Some m fc show ?thesis by simp
    next
      case False
      have "set (drop k (x # xs)) \<subseteq> A"
        using "2.prems"(2) by (meson order_trans set_drop_subset)
      with 2 Some m fc False show ?thesis by simp
    qed
  qed
qed


lemma set_re_sub:
  "set s \<subseteq> A \<Longrightarrow> tlits t \<subseteq> A \<Longrightarrow> set (re_sub r t s) \<subseteq> A"
  unfolding re_sub_def using set_expand [of _ A t] by (intro set_re_sub_from) blast+

lemma set_re_sub_call_from:
  "(\<And>c st rep st'. (\<forall>n g. c n = Some g \<longrightarrow> set g \<subseteq> A) \<Longrightarrow> I st \<Longrightarrow> f c st = Inr (rep, st')
      \<Longrightarrow> set rep \<subseteq> A \<and> I st')
   \<Longrightarrow> set s \<subseteq> A \<Longrightarrow> I st \<Longrightarrow> re_sub_call_from r f st p s = Inr (out, st')
   \<Longrightarrow> set out \<subseteq> A \<and> I st'"
proof (induction r f st p s arbitrary: out st' rule: re_sub_call_from.induct)
  case (1 r f st p)
  show ?case
  proof (cases "match_here r p []")
    case None
    with 1 show ?thesis by simp
  next
    case (Some m)
    obtain p' s' k c where m: "m = (p', s', k, c)" by (cases m) auto
    from match_here_Some [OF Some [unfolded m]] have "\<forall>n g. c n = Some g \<longrightarrow> set g \<subseteq> A"
      by fastforce
    from "1.prems"(1) [OF this "1.prems"(3)] "1.prems"(4) Some m show ?thesis by simp
  qed
next
  case (2 r f st p x xs)
  show ?case
  proof (cases "match_here r p (x # xs)")
    case None
    with "2.prems"(4) obtain out1 where
      r: "re_sub_call_from r f st (Some x) xs = Inr (out1, st')" and out: "out = x # out1"
      by (auto split: sum.splits)
    from "2.IH"(1) [OF None "2.prems"(1) _ "2.prems"(3) r] "2.prems"(2) out
    show ?thesis by simp
  next
    case (Some m)
    obtain p' s' k c where m: "m = (p', s', k, c)" by (cases m) auto
    from match_here_Some [OF Some [unfolded m]] "2.prems"(2)
    have c: "\<forall>n g. c n = Some g \<longrightarrow> set g \<subseteq> A" by blast
    from "2.prems"(4) Some m obtain rep st1 where fc: "f c st = Inr (rep, st1)"
      by (auto split: sum.splits)
    from "2.prems"(1) [OF c "2.prems"(3) fc] have rep: "set rep \<subseteq> A" and st1: "I st1" by auto
    show ?thesis
    proof (cases "k = 0")
      case True
      with "2.prems"(4) Some m fc obtain out1 where
        r: "re_sub_call_from r f st1 (Some x) xs = Inr (out1, st')" and out: "out = rep @ x # out1"
        by (auto split: sum.splits)
      from "2.IH"(2) [OF Some [unfolded m] refl refl refl fc refl True "2.prems"(1) _ st1 r]
        "2.prems"(2) out rep
      show ?thesis by simp
    next
      case False
      with "2.prems"(4) Some m fc obtain out1 where
        r: "re_sub_call_from r f st1 p' (drop k (x # xs)) = Inr (out1, st')" and out: "out = rep @ out1"
        by (auto split: sum.splits)
      have "set (drop k (x # xs)) \<subseteq> A"
        using "2.prems"(2) by (meson order_trans set_drop_subset)
      from "2.IH"(3) [OF Some [unfolded m] refl refl refl fc refl False "2.prems"(1) this st1 r]
        out rep
      show ?thesis by simp
    qed
  qed
qed


lemma re_sub_call_from_total:
  "(\<And>c st. (\<forall>n. sets n r \<longrightarrow> c n \<noteq> None) \<Longrightarrow> \<exists>y. f c st = Inr y)
   \<Longrightarrow> \<exists>y. re_sub_call_from r f st p s = Inr y"
proof (induction r f st p s rule: re_sub_call_from.induct)
  case (1 r f st p)
  show ?case
  proof (cases "match_here r p []")
    case None
    then show ?thesis by simp
  next
    case (Some m)
    obtain p' s' k c where m: "m = (p', s', k, c)" by (cases m) auto
    from match_here_Some [OF Some [unfolded m]] have "\<forall>n. sets n r \<longrightarrow> c n \<noteq> None" by blast
    from "1.prems" [OF this, of st] Some m show ?thesis by simp
  qed
next
  case (2 r f st p x xs)
  show ?case
  proof (cases "match_here r p (x # xs)")
    case None
    from "2.IH"(1) [OF None "2.prems"] obtain y where "re_sub_call_from r f st (Some x) xs = Inr y"
      by blast
    with None show ?thesis by (cases y) simp
  next
    case (Some m)
    obtain p' s' k c where m: "m = (p', s', k, c)" by (cases m) auto
    from match_here_Some [OF Some [unfolded m]] have "\<forall>n. sets n r \<longrightarrow> c n \<noteq> None" by blast
    from "2.prems" [OF this, of st] obtain rep st1 where fc: "f c st = Inr (rep, st1)" by auto
    show ?thesis
    proof (cases "k = 0")
      case True
      from "2.IH"(2) [OF Some [unfolded m] refl refl refl fc refl True "2.prems"]
      obtain y where "re_sub_call_from r f st1 (Some x) xs = Inr y" by blast
      with Some m fc True show ?thesis by (cases y) simp
    next
      case False
      from "2.IH"(3) [OF Some [unfolded m] refl refl refl fc refl False "2.prems"]
      obtain y where "re_sub_call_from r f st1 p' (drop k (x # xs)) = Inr y" by blast
      with Some m fc False show ?thesis by (cases y) simp
    qed
  qed
qed

lemma re_sub_err_total:
  assumes "\<And>c. (\<forall>n. sets n r \<longrightarrow> c n \<noteq> None) \<Longrightarrow> \<exists>y. f c = Inr y"
  shows "\<exists>y. re_sub_err r f s = Inr y"
proof -
  let ?f = "\<lambda>m st. case f m of Inl e \<Rightarrow> Inl e | Inr rep \<Rightarrow> Inr (rep, st :: unit)"
  have "\<exists>y. re_sub_call_from r ?f () None s = Inr y"
  proof (rule re_sub_call_from_total)
    fix c :: caps and st :: unit
    assume "\<forall>n. sets n r \<longrightarrow> c n \<noteq> None"
    from assms [OF this] obtain y where "f c = Inr y" by blast
    then show "\<exists>y. ?f c st = Inr y" by simp
  qed
  then obtain out st where "re_sub_call_from r ?f () None s = Inr (out, st)" by auto
  then show ?thesis by (simp add: re_sub_err_def re_sub_call_def)
qed

lemma set_re_sub_err:
  assumes f: "\<And>c rep. (\<forall>n g. c n = Some g \<longrightarrow> set g \<subseteq> A) \<Longrightarrow> f c = Inr rep \<Longrightarrow> set rep \<subseteq> A"
    and s: "set s \<subseteq> A" and r: "re_sub_err r f s = Inr out"
  shows "set out \<subseteq> A"
proof -
  let ?f = "\<lambda>m st. case f m of Inl e \<Rightarrow> Inl e | Inr rep \<Rightarrow> Inr (rep, st :: unit)"
  from r have c: "re_sub_call_from r ?f () None s = Inr (out, ())"
    by (simp add: re_sub_err_def re_sub_call_def split: sum.splits prod.splits)
  have "set out \<subseteq> A \<and> True"
  proof (rule set_re_sub_call_from [where I = "\<lambda>_. True" and f = ?f, OF _ s _ c])
    fix c :: caps and st st' :: unit and rep
    assume "\<forall>n g. c n = Some g \<longrightarrow> set g \<subseteq> A" and "?f c st = Inr (rep, st')"
    then show "set rep \<subseteq> A \<and> True"
      using f [of c rep] by (cases "f c") auto
  qed simp
  then show ?thesis by simp
qed


section \<open>Characters and results of the string operations\<close>

abbreviation SEMI :: char where "SEMI \<equiv> CHR '';''"

lemma set_str_strip: "set (str_strip s) \<subseteq> set s"
  by (auto simp: str_strip_def dest!: set_dropWhileD)

lemma set_str_lstrip: "set (str_lstrip s) \<subseteq> set s"
  by (auto simp: str_lstrip_def dest!: set_dropWhileD)

lemma set_str_split: "x \<in> set (str_split d s) \<Longrightarrow> set x \<subseteq> set s"
proof (induction s arbitrary: x)
  case Nil
  then show ?case by simp
next
  case (Cons a s)
  obtain w ws where sp: "str_split d s = w # ws"
    using str_split_nonempty [of d s] by (cases "str_split d s") auto
  with Cons.prems have "x = [] \<or> x = a # w \<or> x \<in> set (str_split d s)"
    by (auto split: if_splits)
  then show ?case
    using Cons.IH [of w] Cons.IH [of x] sp by auto
qed

lemma set_str_join: "set (str_join sep xs) \<subseteq> set sep \<union> \<Union> (set ` set xs)"
  by (induction sep xs rule: str_join.induct) auto

lemma set_str_replace: "set (str_replace old new s) \<subseteq> set s \<union> set new"
proof (induction old new s rule: str_replace.induct)
  case (1 old new s)
  show ?case
  proof (cases "old = []")
    case True
    then show ?thesis by (subst str_replace.simps) auto
  next
    case False
    show ?thesis
    proof (cases "str_startswith s old")
      case True
      with False "1.IH"(1)
      have "set (str_replace old new (drop (length old) s)) \<subseteq> set (drop (length old) s) \<union> set new"
        by simp
      moreover have "set (drop (length old) s) \<subseteq> set s"
        by (rule set_drop_subset)
      ultimately have "set (str_replace old new (drop (length old) s)) \<subseteq> set s \<union> set new"
        by blast
      with True False show ?thesis by (subst str_replace.simps) auto
    next
      case nsw: False
      show ?thesis
      proof (cases s)
        case Nil
        with False nsw show ?thesis by (subst str_replace.simps) auto
      next
        case (Cons x xs)
        with False nsw "1.IH"(2) have "set (str_replace old new xs) \<subseteq> set xs \<union> set new" by simp
        with Cons False nsw show ?thesis by (subst str_replace.simps) auto
      qed
    qed
  qed
qed

lemma str_replace_removes_char: "d \<notin> set (str_replace [d] [] s)"
proof (induction "[d]" "[] :: string" s rule: str_replace.induct)
  case (1 s)
  show ?case
  proof (cases "str_startswith s [d]")
    case True
    with "1.hyps"(1) show ?thesis by (subst str_replace.simps) simp
  next
    case False
    show ?thesis
    proof (cases s)
      case Nil
      then show ?thesis by (subst str_replace.simps) simp
    next
      case (Cons x xs)
      with False have "x \<noteq> d" by auto
      with Cons False "1.hyps"(2) show ?thesis by (subst str_replace.simps) simp
    qed
  qed
qed

lemma set_tl_subset: "set (tl xs) \<subseteq> set xs"
  by (cases xs) auto

lemma set_str_split1: "x \<in> set (str_split1 d s) \<Longrightarrow> set x \<subseteq> set s"
  using set_tl_subset [of "dropWhile (\<lambda>x. x \<noteq> d) s"]
  by (auto simp: str_split1_def split: if_splits dest: set_takeWhileD set_dropWhileD)

lemma set_str_slice: "set (str_slice a b s) \<subseteq> set s"
  by (auto simp: str_slice_def dest: in_set_takeD in_set_dropD)

lemma find_index_from_Some: "d \<in> set s \<Longrightarrow> \<exists>j. find_index_from d i s = Some j"
  by (induction s arbitrary: i) auto

lemma str_index_total: "d \<in> set s \<Longrightarrow> \<exists>i. str_index d s = Inr i"
  using find_index_from_Some [of d s 0] by (auto simp: str_index_def)

lemma str_rindex_total: "d \<in> set s \<Longrightarrow> \<exists>i. str_rindex d s = Inr i"
  using find_index_from_Some [of d "rev s" 0] by (auto simp: str_rindex_def)

lemma sequence_e_map:
  "(\<And>x. x \<in> set xs \<Longrightarrow> \<exists>y. f x = Inr y \<and> Q y)
   \<Longrightarrow> \<exists>ys. sequence_e (map f xs) = Inr ys \<and> (\<forall>y\<in>set ys. Q y)"
proof (induction xs)
  case Nil
  then show ?case by simp
next
  case (Cons x xs)
  from Cons.prems [of x] obtain y where y: "f x = Inr y" "Q y" by auto
  have "\<And>z. z \<in> set xs \<Longrightarrow> \<exists>y. f z = Inr y \<and> Q y"
    using Cons.prems by simp
  from Cons.IH [OF this] obtain ys where "sequence_e (map f xs) = Inr ys" "\<forall>y\<in>set ys. Q y"
    by blast
  with y show ?case by simp
qed

lemma str_split1_two: "d \<in> set s \<Longrightarrow> \<exists>a b. str_split1 d s = [a, b]"
  by (simp add: str_split1_def)


section \<open>The indentation counter and the import lines\<close>

lemma indent_step_nonneg: "0 \<le> lvl \<Longrightarrow> 0 \<le> fst (indent_step (lvl, out) line)"
  by (simp add: indent_step_def dedent_before_def indent_after_def Let_def)

lemma foldl_indent_step_nonneg:
  "0 \<le> fst st \<Longrightarrow> 0 \<le> fst (foldl indent_step st lines)"
proof (induction lines arbitrary: st)
  case Nil
  then show ?case by simp
next
  case (Cons line lines)
  obtain lvl out where st: "st = (lvl, out)" by (cases st) auto
  with Cons.prems have "0 \<le> fst (indent_step st line)"
    by (simp add: indent_step_nonneg)
  from Cons.IH [OF this] show ?case by simp
qed

lemma indent_loop_Suc:
  "n < length lines \<Longrightarrow>
   indent_loop (take (Suc n) lines) = indent_step (indent_loop (take n lines)) (lines ! n)"
  by (simp add: indent_loop_def take_Suc_conv_app_nth)

lemma str_join_Nil_iff: "(\<forall>x\<in>set xs. x \<noteq> []) \<Longrightarrow> str_join sep xs = [] \<longleftrightarrow> xs = []"
  by (induction sep xs rule: str_join.induct) auto

lemma import_lines_nonempty: "\<forall>l\<in>set (import_lines code). l \<noteq> []"
  by (auto simp: import_lines_def typing_import_def)

definition type_chars :: "char set" where
  "type_chars = set ''Union[], ListAwaitableDictAny'' \<union> (\<Union>item\<in>set type_map. set (snd item))"

lemma type_map_values: "map_of type_map t = Some py \<Longrightarrow> set py \<subseteq> type_chars"
  by (force simp: type_chars_def dest!: map_of_SomeD)

lemma not_in_str_split: "x \<in> set (str_split d s) \<Longrightarrow> d \<notin> set x"
proof (induction s arbitrary: x)
  case Nil
  then show ?case by simp
next
  case (Cons a s)
  obtain w ws where sp: "str_split d s = w # ws"
    using str_split_nonempty [of d s] by (cases "str_split d s") auto
  show ?case
  proof (cases "a = d")
    case True
    with Cons.prems have "x = [] \<or> x \<in> set (str_split d s)" by auto
    with Cons.IH show ?thesis by auto
  next
    case False
    with Cons.prems sp have "x = a # w \<or> x \<in> set ws" by auto
    with Cons.IH [of w] Cons.IH [of x] sp False show ?thesis by auto
  qed
qed

lemma sequence_e_map_cases:
  "(\<And>x. x \<in> set xs \<Longrightarrow> f x = Inl E \<or> (\<exists>y. f x = Inr y \<and> Q y))
   \<Longrightarrow> sequence_e (map f xs) = Inl E
       \<or> (\<exists>ys. sequence_e (map f xs) = Inr ys \<and> (\<forall>y\<in>set ys. Q y))"
proof (induction xs)
  case Nil
  then show ?case by simp
next
  case (Cons x xs)
  have tl: "\<And>z. z \<in> set xs \<Longrightarrow> f z = Inl E \<or> (\<exists>y. f z = Inr y \<and> Q y)"
    using Cons.prems by simp
  from Cons.prems [of x] consider "f x = Inl E" | y where "f x = Inr y" "Q y" by auto
  then show ?case
  proof cases
    case 1
    then show ?thesis by simp
  next
    case 2
    from Cons.IH [OF tl] 2 show ?thesis by auto
  qed
qed

lemma convert_type_cases:
  "convert_type d t = Inl RecursionError
   \<or> (\<exists>y. convert_type d t = Inr y \<and> set y \<subseteq> set t \<union> type_chars)"
proof (induction d t rule: convert_type.induct)
  case (1 depth ts_type0)
  define ts where "ts = str_strip ts_type0"
  have sub: "set ts \<subseteq> set ts_type0" unfolding ts_def by (rule set_str_strip)
  let ?ok = "\<lambda>r. r = Inl RecursionError \<or> (\<exists>y. r = Inr y \<and> set y \<subseteq> set ts_type0 \<union> type_chars)"
  have lits: "set ''Union['' \<subseteq> type_chars" "set '']'' \<subseteq> type_chars" "set '', '' \<subseteq> type_chars"
    "set ''List['' \<subseteq> type_chars" "set ''Awaitable['' \<subseteq> type_chars" "set ''Dict['' \<subseteq> type_chars"
    "set ''Any'' \<subseteq> type_chars"
    by (simp_all add: type_chars_def)
  show ?case
  proof (cases "depth = 0")
    case True
    then show ?thesis by (simp add: convert_type.simps [of 0])
  next
    case d: False
    show ?thesis
    proof (cases "ts_type0 = []")
      case True
      with d lits show ?thesis by (simp add: convert_type.simps [of depth "[]"])
    next
      case ne: False
      show ?thesis
      proof (cases "CHR ''|'' \<in> set ts")
        case True
        let ?f = "\<lambda>t. convert_type (depth - 1) (str_strip t)"
        let ?Q = "\<lambda>y. set y \<subseteq> set ts_type0 \<union> type_chars"
        have "sequence_e (map ?f (str_split CHR ''|'' ts)) = Inl RecursionError
            \<or> (\<exists>ys. sequence_e (map ?f (str_split CHR ''|'' ts)) = Inr ys \<and> (\<forall>y\<in>set ys. ?Q y))"
        proof (rule sequence_e_map_cases)
          fix x assume x: "x \<in> set (str_split CHR ''|'' ts)"
          have "set (str_strip x) \<subseteq> set ts_type0"
            using set_str_strip [of x] set_str_split [OF x] sub by blast
          with "1.IH"(1) [OF d ne ts_def True x]
          show "?f x = Inl RecursionError \<or> (\<exists>y. ?f x = Inr y \<and> ?Q y)" by blast
        qed
        then consider "sequence_e (map ?f (str_split CHR ''|'' ts)) = Inl RecursionError"
          | ys where "sequence_e (map ?f (str_split CHR ''|'' ts)) = Inr ys" "\<forall>y\<in>set ys. ?Q y"
          by blast
        then show ?thesis
        proof cases
          case 1
          with d ne True show ?thesis
            by (simp add: convert_type.simps [of depth ts_type0] ts_def [symmetric])
        next
          case 2
          have "set (str_join '', '' ys) \<subseteq> set ts_type0 \<union> type_chars"
            using set_str_join [of "'', ''" ys] 2(2) lits(3) by blast
          with d ne True 2(1) lits show ?thesis
            by (simp add: convert_type.simps [of depth ts_type0] ts_def [symmetric])
        qed
      next
        case nobar: False
        show ?thesis
        proof (cases "map_of type_map ts")
          case (Some py)
          with d ne nobar type_map_values [OF Some] show ?thesis
            by (auto simp add: convert_type.simps [of depth ts_type0] ts_def [symmetric])
        next
          case None
          show ?thesis
          proof (cases "CHR ''<'' \<in> set ts \<and> CHR ''>'' \<in> set ts")
            case False
            with d ne nobar None sub show ?thesis
              by (auto simp add: convert_type.simps [of depth ts_type0] ts_def [symmetric])
          next
            case True
            then obtain i j where i: "str_index CHR ''<'' ts = Inr i" and j: "str_rindex CHR ''>'' ts = Inr j"
              using str_index_total str_rindex_total by blast
            define inner where "inner = str_slice (i + 1) j ts"
            have inner_sub: "set inner \<subseteq> set ts_type0"
              unfolding inner_def using set_str_slice sub by blast
            have inner_Suc: "str_slice (Suc i) j ts = inner" by (simp add: inner_def)
            note unfold = convert_type.simps [of depth ts_type0] ts_def [symmetric] inner_Suc
            consider (array) "take i ts = ''Array''"
              | (promise) "take i ts \<noteq> ''Array'' \<and> take i ts = ''Promise''"
              | (rcd) "take i ts \<noteq> ''Array'' \<and> take i ts \<noteq> ''Promise'' \<and> take i ts = ''Record''"
              | (other) "take i ts \<noteq> ''Array'' \<and> take i ts \<noteq> ''Promise'' \<and> take i ts \<noteq> ''Record''"
              by blast
            then show ?thesis
            proof cases
              case array
              from "1.IH"(2) [OF d ne ts_def nobar None True i j refl refl] array
              have "convert_type (depth - 1) inner = Inl RecursionError
                  \<or> (\<exists>y. convert_type (depth - 1) inner = Inr y \<and> set y \<subseteq> set inner \<union> type_chars)"
                unfolding inner_def by auto
              with inner_sub have "?ok (convert_type (depth - 1) inner)" by blast
              then show ?thesis
              proof
                assume "convert_type (depth - 1) inner = Inl RecursionError"
                with d ne nobar None True i j array show ?thesis by (simp add: unfold)
              next
                assume "\<exists>y. convert_type (depth - 1) inner = Inr y \<and> set y \<subseteq> set ts_type0 \<union> type_chars"
                then obtain y where "convert_type (depth - 1) inner = Inr y"
                  "set y \<subseteq> set ts_type0 \<union> type_chars" by blast
                with d ne nobar None True i j array lits show ?thesis by (simp add: unfold)
              qed
            next
              case promise
              from "1.IH"(3) [OF d ne ts_def nobar None True i j refl refl] promise
              have "convert_type (depth - 1) inner = Inl RecursionError
                  \<or> (\<exists>y. convert_type (depth - 1) inner = Inr y \<and> set y \<subseteq> set inner \<union> type_chars)"
                unfolding inner_def by auto
              with inner_sub have "?ok (convert_type (depth - 1) inner)" by blast
              then show ?thesis
              proof
                assume "convert_type (depth - 1) inner = Inl RecursionError"
                with d ne nobar None True i j promise show ?thesis by (simp add: unfold)
              next
                assume "\<exists>y. convert_type (depth - 1) inner = Inr y \<and> set y \<subseteq> set ts_type0 \<union> type_chars"
                then obtain y where "convert_type (depth - 1) inner = Inr y"
                  "set y \<subseteq> set ts_type0 \<union> type_chars" by blast
                with d ne nobar None True i j promise lits show ?thesis by (simp add: unfold)
              qed
            next
              case rcd
              show ?thesis
              proof (cases "\<exists>key val. str_split1 CHR '','' inner = [key, val]")
                case False
                then have "(case str_split1 CHR '','' inner of [key, val] \<Rightarrow> X key val | _ \<Rightarrow> Inr ts) = Inr ts"
                  for X :: "string \<Rightarrow> string \<Rightarrow> py_error + string"
                  by (auto split: list.splits)
                with d ne nobar None True i j rcd sub show ?thesis
                  by (auto simp add: unfold)
              next
                case kv: True
                then obtain key val where sp: "str_split1 CHR '','' inner = [key, val]" by blast
                have kvsub: "set key \<subseteq> set ts_type0" "set val \<subseteq> set ts_type0"
                  using set_str_split1 [of key "CHR '',''" inner] set_str_split1 [of val "CHR '',''" inner]
                    sp inner_sub by auto
                from "1.IH"(4) [OF d ne ts_def nobar None True i j refl refl
                    _ _ _ sp [unfolded inner_def] refl refl] rcd
                have k: "convert_type (depth - 1) key = Inl RecursionError
                    \<or> (\<exists>y. convert_type (depth - 1) key = Inr y \<and> set y \<subseteq> set key \<union> type_chars)"
                  by auto
                show ?thesis
                proof (cases "convert_type (depth - 1) key")
                  case (Inl e)
                  with k have "e = RecursionError" by auto
                  with Inl d ne nobar None True i j rcd sp show ?thesis
                    by (simp add: unfold)
                next
                  case (Inr kk)
                  with k have kk: "set kk \<subseteq> set key \<union> type_chars" by auto
                  from "1.IH"(5) [OF d ne ts_def nobar None True i j refl refl
                      _ _ _ sp [unfolded inner_def] refl refl Inr] rcd
                  have v: "convert_type (depth - 1) val = Inl RecursionError
                      \<or> (\<exists>y. convert_type (depth - 1) val = Inr y \<and> set y \<subseteq> set val \<union> type_chars)"
                    by auto
                  with kvsub have okv: "?ok (convert_type (depth - 1) val)" by blast
                  from kk kvsub have kk': "set kk \<subseteq> set ts_type0 \<union> type_chars" by blast
                  from okv show ?thesis
                  proof
                    assume "convert_type (depth - 1) val = Inl RecursionError"
                    with Inr d ne nobar None True i j rcd sp show ?thesis by (simp add: unfold)
                  next
                    assume "\<exists>y. convert_type (depth - 1) val = Inr y \<and> set y \<subseteq> set ts_type0 \<union> type_chars"
                    then obtain y where "convert_type (depth - 1) val = Inr y"
                      "set y \<subseteq> set ts_type0 \<union> type_chars" by blast
                    with Inr kk' d ne nobar None True i j rcd sp lits show ?thesis
                      by (simp add: unfold)
                  qed
                qed
              qed
            next
              case other
              with d ne nobar None True i j sub show ?thesis
                by (auto simp add: unfold)
            qed
          qed
        qed
      qed
    qed
  qed
qed

lemma re_sub_call_from_cases:
  "\<forall>m st. (\<forall>n. sets n r \<longrightarrow> m n \<noteq> None) \<longrightarrow> (\<forall>n g. m n = Some g \<longrightarrow> set g \<subseteq> A) \<longrightarrow> I st
      \<longrightarrow> (\<exists>e. f m st = Inl e \<and> E e) \<or> (\<exists>rep st'. f m st = Inr (rep, st') \<and> set rep \<subseteq> A \<and> I st')
   \<Longrightarrow> set s \<subseteq> A \<Longrightarrow> I st
   \<Longrightarrow> (\<exists>e. re_sub_call_from r f st p s = Inl e \<and> E e)
       \<or> (\<exists>out st'. re_sub_call_from r f st p s = Inr (out, st') \<and> set out \<subseteq> A \<and> I st')"
proof (induction r f st p s rule: re_sub_call_from.induct)
  case (1 r f st p)
  show ?case
  proof (cases "match_here r p []")
    case None
    with "1.prems" show ?thesis by simp
  next
    case (Some m)
    obtain p' s' k c where m: "m = (p', s', k, c)" by (cases m) auto
    from match_here_Some [OF Some [unfolded m]]
    have "\<forall>n. sets n r \<longrightarrow> c n \<noteq> None" "\<forall>n g. c n = Some g \<longrightarrow> set g \<subseteq> A" by fastforce+
    with "1.prems"(1) "1.prems"(3)
    have "(\<exists>e. f c st = Inl e \<and> E e) \<or> (\<exists>rep st'. f c st = Inr (rep, st') \<and> set rep \<subseteq> A \<and> I st')"
      by blast
    with Some m show ?thesis by simp
  qed
next
  case (2 r f st p x xs)
  from "2.prems"(2) have xs: "set xs \<subseteq> A" and x: "x \<in> A" by simp_all
  show ?case
  proof (cases "match_here r p (x # xs)")
    case None
    from "2.IH"(1) [OF None "2.prems"(1) xs "2.prems"(3)] None x show ?thesis
      by (elim disjE exE conjE) simp_all
  next
    case (Some m)
    obtain p' s' k c where m: "m = (p', s', k, c)" by (cases m) auto
    from match_here_Some [OF Some [unfolded m]] "2.prems"(2)
    have c: "\<forall>n. sets n r \<longrightarrow> c n \<noteq> None" "\<forall>n g. c n = Some g \<longrightarrow> set g \<subseteq> A" by blast+
    from "2.prems"(1) c "2.prems"(3)
    have "(\<exists>e. f c st = Inl e \<and> E e) \<or> (\<exists>rep st'. f c st = Inr (rep, st') \<and> set rep \<subseteq> A \<and> I st')"
      by blast
    then consider e where "f c st = Inl e" "E e"
      | rep st1 where "f c st = Inr (rep, st1)" "set rep \<subseteq> A" "I st1"
      by blast
    then show ?thesis
    proof cases
      case 1
      with Some m show ?thesis by simp
    next
      case 2
      show ?thesis
      proof (cases "k = 0")
        case True
        from "2.IH"(2) [OF Some [unfolded m] refl refl refl 2(1) refl True "2.prems"(1) xs 2(3)]
          Some m 2 True x
        show ?thesis by (elim disjE exE conjE) simp_all
      next
        case False
        have "set (drop k (x # xs)) \<subseteq> A"
          using "2.prems"(2) set_drop_subset [of k "x # xs"] by blast
        from "2.IH"(3) [OF Some [unfolded m] refl refl refl 2(1) refl False "2.prems"(1) this 2(3)]
          Some m 2 False
        show ?thesis by (elim disjE exE conjE) simp_all
      qed
    qed
  qed
qed

lemma re_sub_err_cases:
  assumes f: "\<And>m. (\<forall>n. sets n r \<longrightarrow> m n \<noteq> None) \<Longrightarrow> (\<forall>n g. m n = Some g \<longrightarrow> set g \<subseteq> A)
      \<Longrightarrow> (\<exists>e. f m = Inl e \<and> E e) \<or> (\<exists>rep. f m = Inr rep \<and> set rep \<subseteq> A)"
    and s: "set s \<subseteq> A"
  shows "(\<exists>e. re_sub_err r f s = Inl e \<and> E e) \<or> (\<exists>out. re_sub_err r f s = Inr out \<and> set out \<subseteq> A)"
proof -
  let ?f = "\<lambda>m st. case f m of Inl e \<Rightarrow> Inl e | Inr rep \<Rightarrow> Inr (rep, st :: unit)"
  have "(\<exists>e. re_sub_call_from r ?f () None s = Inl e \<and> E e)
      \<or> (\<exists>out st'. re_sub_call_from r ?f () None s = Inr (out, st') \<and> set out \<subseteq> A \<and> True)"
  proof (rule re_sub_call_from_cases [where I = "\<lambda>_. True"], intro allI impI)
    fix m :: caps and st :: unit
    assume "\<forall>n. sets n r \<longrightarrow> m n \<noteq> None" "\<forall>n g. m n = Some g \<longrightarrow> set g \<subseteq> A"
    from f [OF this]
    show "(\<exists>e. ?f m st = Inl e \<and> E e) \<or> (\<exists>rep st'. ?f m st = Inr (rep, st') \<and> set rep \<subseteq> A \<and> True)"
      by (elim disjE exE conjE) simp_all
  qed (simp_all add: s)
  then show ?thesis
    unfolding re_sub_err_def re_sub_call_def by (elim disjE exE conjE) simp_all
qed

text \<open>
  No pass writes a semicolon or the character \<^verbatim>\<open><\<close>. A set of characters is \<open>roomy\<close> if it has
  every other character; the passes keep a text within a roomy set.
\<close>

definition roomy :: "char set \<Rightarrow> bool" where
  "roomy A = (\<forall>c. c \<noteq> CHR '';'' \<longrightarrow> c \<noteq> CHR ''<'' \<longrightarrow> c \<in> A)"

lemma roomy_mem: "roomy A \<Longrightarrow> c \<noteq> CHR '';'' \<Longrightarrow> c \<noteq> CHR ''<'' \<Longrightarrow> c \<in> A"
  by (simp add: roomy_def)

lemma roomy_instances: "roomy UNIV" "roomy (- {CHR '';''})" "roomy (- {CHR ''<''})"
  by (simp_all add: roomy_def)

lemma roomy_insert: "roomy A \<Longrightarrow> roomy (insert c A)"
  by (simp add: roomy_def)

lemma roomy_type_chars: "roomy A \<Longrightarrow> type_chars \<subseteq> A"
  by (auto simp: type_chars_def type_map_def roomy_def)

lemma within_str_replace:
  "set s \<subseteq> A \<Longrightarrow> set new \<subseteq> A \<Longrightarrow> set (str_replace old new s) \<subseteq> A"
  using set_str_replace [of old new s] by blast

lemma within_str_join:
  "set sep \<subseteq> A \<Longrightarrow> (\<forall>x\<in>set xs. set x \<subseteq> A) \<Longrightarrow> set (str_join sep xs) \<subseteq> A"
  using set_str_join [of sep xs] by blast

lemma within_str_split: "set s \<subseteq> A \<Longrightarrow> \<forall>x\<in>set (str_split d s). set x \<subseteq> A"
  using set_str_split by blast

lemma within_str_strip: "set s \<subseteq> A \<Longrightarrow> set (str_strip s) \<subseteq> A"
  using set_str_strip by blast

lemma within_str_lstrip: "set s \<subseteq> A \<Longrightarrow> set (str_lstrip s) \<subseteq> A"
  using set_str_lstrip by blast

lemma set_str_replace_delete: "set (str_replace [d] [] s) \<subseteq> set s - {d}"
  using set_str_replace [of "[d]" "[]" s] str_replace_removes_char [of d s] by auto

lemma within_extract_decorators:
  "set s \<subseteq> A \<Longrightarrow> set (snd (extract_decorators s)) \<subseteq> A"
  by (simp add: extract_decorators_def set_re_sub)

lemma within_py_str: "roomy A \<Longrightarrow> (\<forall>g. m = Some g \<longrightarrow> set g \<subseteq> A) \<Longrightarrow> set (py_str m) \<subseteq> A"
  by (cases m) (simp_all add: roomy_mem)

lemma within_convert_classes:
  assumes "roomy A" "set s \<subseteq> A"
  shows "set (convert_classes s) \<subseteq> A"
proof -
  have 1: "set (class_repl m) \<subseteq> A" if "\<forall>n g. m n = Some g \<longrightarrow> set g \<subseteq> A" for m
    using that assms(1) within_py_str [OF assms(1), of "m 1"]
    by (cases "m 2") (auto simp: class_repl_def roomy_mem)
  have 2: "set (constructor_repl m) \<subseteq> A" if "\<forall>n g. m n = Some g \<longrightarrow> set g \<subseteq> A" for m
    using that assms(1) within_py_str [OF assms(1), of "m 1"]
    by (simp add: constructor_repl_def roomy_mem)
  show ?thesis
    unfolding convert_classes_def using 1 2 assms(2) by (intro set_re_sub_from) blast+
qed

lemma within_convert_array_methods:
  assumes "roomy A" "set s \<subseteq> insert (CHR '';'') A"
  shows "set (convert_array_methods s) \<subseteq> A"
proof -
  have "set (re_sub re_arrow [T '' => ''] s) \<subseteq> insert (CHR '';'') A"
    using assms(2) by (rule set_re_sub) (simp add: roomy_mem [OF assms(1)])
  then have "set (str_replace '';'' [] (re_sub re_arrow [T '' => ''] s)) \<subseteq> A"
    using set_str_replace_delete [of "CHR '';''" "re_sub re_arrow [T '' => ''] s"] by blast
  with assms(1) show ?thesis
    by (simp add: convert_array_methods_def Let_def set_re_sub roomy_mem
        reduce_template_def map_template_def filter_template_def forEach_template_def
        find_template_def)
qed

lemma within_convert_control_structures:
  "roomy A \<Longrightarrow> set s \<subseteq> A \<Longrightarrow> set (convert_control_structures s) \<subseteq> A"
  by (simp add: convert_control_structures_def Let_def set_re_sub roomy_mem)

lemma within_replace_method:
  "set code \<subseteq> A \<Longrightarrow> set (snd item) \<subseteq> A \<Longrightarrow> set (replace_method code item) \<subseteq> A"
  by (cases item) (simp add: replace_method_def set_re_sub)

lemma within_foldl_replace_method:
  "set code \<subseteq> A \<Longrightarrow> (\<forall>item\<in>set items. set (snd item) \<subseteq> A)
   \<Longrightarrow> set (foldl replace_method code items) \<subseteq> A"
  by (induction items arbitrary: code) (simp_all add: within_replace_method)

lemma method_map_values: "roomy A \<Longrightarrow> \<forall>item\<in>set method_map. set (snd item) \<subseteq> A"
  by (simp add: method_map_def roomy_mem)

lemma within_convert_common_methods:
  "roomy A \<Longrightarrow> set s \<subseteq> A \<Longrightarrow> set (convert_common_methods s) \<subseteq> A"
  by (simp add: convert_common_methods_def Let_def set_re_sub within_foldl_replace_method
      method_map_values roomy_mem)

lemma within_convert_operators:
  "roomy A \<Longrightarrow> set s \<subseteq> A \<Longrightarrow> set (convert_operators s) \<subseteq> A"
  by (simp add: convert_operators_def Let_def set_re_sub within_str_replace roomy_mem)

lemma within_strip_braces:
  "set line \<subseteq> A \<Longrightarrow> \<forall>l\<in>set (strip_braces line). set l \<subseteq> A"
  by (simp add: strip_braces_def within_str_replace)

lemma within_indentation: "roomy A \<Longrightarrow> set (indentation n) \<subseteq> A"
  by (auto simp: indentation_def roomy_mem)

lemma within_indent_step:
  "roomy A \<Longrightarrow> \<forall>l\<in>set (snd st). set l \<subseteq> A \<Longrightarrow> set line \<subseteq> A
   \<Longrightarrow> \<forall>l\<in>set (snd (indent_step st line)). set l \<subseteq> A"
  by (cases st) (simp add: indent_step_def Let_def within_indentation within_str_strip)

lemma within_foldl_indent_step:
  "roomy A \<Longrightarrow> \<forall>l\<in>set (snd st). set l \<subseteq> A \<Longrightarrow> \<forall>line\<in>set lines. set line \<subseteq> A
   \<Longrightarrow> \<forall>l\<in>set (snd (foldl indent_step st lines)). set l \<subseteq> A"
proof (induction lines arbitrary: st)
  case Nil
  then show ?case by simp
next
  case (Cons line lines)
  from Cons.prems have "\<forall>l\<in>set (snd (indent_step st line)). set l \<subseteq> A"
    by (intro within_indent_step) simp_all
  from Cons.IH [OF Cons.prems(1) this] Cons.prems(3) show ?case by simp
qed

lemma within_cleanup_code:
  assumes "roomy A" "set code \<subseteq> A"
  shows "set (cleanup_code code) \<subseteq> A"
proof -
  define code1 where "code1 = re_sub re_comment [T ''# '', G 1] code"
  define code2 where "code2 = str_join [NL] (concat (map strip_braces (str_split NL code1)))"
  define code3 where
    "code3 = re_sub re_missing_colon [G 1, T '' '', G 2, T '':'', T [NL]] (str_replace '';'' [] code2)"
  have 1: "set code1 \<subseteq> A"
    unfolding code1_def using assms by (simp add: set_re_sub roomy_mem)
  have "\<forall>l\<in>set (concat (map strip_braces (str_split NL code1))). set l \<subseteq> A"
    using within_str_split [OF 1, of NL] within_strip_braces [of _ A] by auto
  then have 2: "set code2 \<subseteq> A"
    unfolding code2_def using assms(1) by (intro within_str_join) (simp_all add: roomy_mem)
  have 3: "set code3 \<subseteq> A"
    unfolding code3_def using 2 assms(1) by (simp add: set_re_sub within_str_replace roomy_mem)
  have "\<forall>l\<in>set (snd (indent_loop (str_split NL code3))). set l \<subseteq> A"
    unfolding indent_loop_def using within_str_split [OF 3, of NL] assms(1)
    by (intro within_foldl_indent_step) simp_all
  then have "set (str_join [NL] (snd (indent_loop (str_split NL code3)))) \<subseteq> A"
    using assms(1) by (intro within_str_join) (simp_all add: roomy_mem)
  then show ?thesis
    by (simp add: cleanup_code_def Let_def code1_def code2_def code3_def)
qed

lemma py_nth_total: "i < length xs \<Longrightarrow> py_nth xs i = Inr (xs ! i)"
  by (simp add: py_nth_def)

lemma fix_return_at_ok:
  assumes "i + 1 < length lines" "roomy A"
  shows "\<exists>lines'. fix_return_at i lines = Inr lines' \<and> length lines' = length lines
           \<and> ((\<forall>l\<in>set lines. set l \<subseteq> A) \<longrightarrow> (\<forall>l\<in>set lines'. set l \<subseteq> A))"
proof -
  have i: "i < length lines" and j: "Suc i < length lines" using assms by simp_all
  have upd: "\<forall>l\<in>set lines. set l \<subseteq> A
      \<Longrightarrow> \<forall>l\<in>set (lines[Suc i := replicate n CHR '' '' @ str_lstrip (lines ! Suc i)]). set l \<subseteq> A"
    for n
  proof -
    assume a: "\<forall>l\<in>set lines. set l \<subseteq> A"
    then have "set (lines ! Suc i) \<subseteq> A" using j by simp
    then have "set (replicate n CHR '' '' @ str_lstrip (lines ! Suc i)) \<subseteq> A"
      using assms(2) by (auto simp: roomy_mem dest: subsetD [OF set_str_lstrip])
    with a show ?thesis
      using set_update_subset_insert [of lines "Suc i"] by blast
  qed
  show ?thesis
    using upd by (simp add: fix_return_at_def py_nth_total i j Let_def)
qed

lemma fix_returns_ok:
  "roomy A \<Longrightarrow> \<forall>i\<in>set is. i + 1 < length lines
   \<Longrightarrow> \<exists>lines'. fix_returns is lines = Inr lines'
         \<and> ((\<forall>l\<in>set lines. set l \<subseteq> A) \<longrightarrow> (\<forall>l\<in>set lines'. set l \<subseteq> A))"
proof (induction "is" arbitrary: lines)
  case Nil
  then show ?case by simp
next
  case (Cons i "is")
  from Cons.prems have "i + 1 < length lines" by simp
  from fix_return_at_ok [OF this Cons.prems(1)] obtain lines1 where
    1: "fix_return_at i lines = Inr lines1" "length lines1 = length lines"
      "(\<forall>l\<in>set lines. set l \<subseteq> A) \<longrightarrow> (\<forall>l\<in>set lines1. set l \<subseteq> A)"
    by blast
  from Cons.prems 1(2) have "\<forall>i\<in>set is. i + 1 < length lines1" by simp
  from Cons.IH [OF Cons.prems(1) this] obtain lines' where
    "fix_returns is lines1 = Inr lines'"
    "(\<forall>l\<in>set lines1. set l \<subseteq> A) \<longrightarrow> (\<forall>l\<in>set lines'. set l \<subseteq> A)"
    by blast
  with 1 show ?case by simp
qed

lemma post_process_ok:
  assumes "roomy A"
  shows "\<exists>out. post_process code = Inr out \<and> (set code \<subseteq> A \<longrightarrow> set out \<subseteq> A)"
proof -
  define code1 where "code1 =
    re_sub re_empty_block [G 1, T '':'', T [NL], T ''    pass'', T [NL, NL]]
      (re_sub re_colon_at_eol [G 1, T '' '', G 2, T '':'']
        (re_sub re_comment [T ''# '', G 1] code))"
  define lines where "lines = str_split NL code1"
  have 1: "set code \<subseteq> A \<Longrightarrow> set code1 \<subseteq> A"
    unfolding code1_def using assms by (simp add: set_re_sub roomy_mem)
  have "\<forall>i\<in>set [0 ..< length lines - 1]. i + 1 < length lines" by auto
  from fix_returns_ok [OF assms this] obtain lines' where
    l: "fix_returns [0 ..< length lines - 1] lines = Inr lines'"
      "(\<forall>l\<in>set lines. set l \<subseteq> A) \<longrightarrow> (\<forall>l\<in>set lines'. set l \<subseteq> A)"
    by blast
  have 2: "set code \<subseteq> A \<Longrightarrow> set (str_join [NL] lines') \<subseteq> A"
  proof -
    assume "set code \<subseteq> A"
    from within_str_split [OF 1 [OF this], of NL] l(2)
    have "\<forall>l\<in>set lines'. set l \<subseteq> A" unfolding lines_def by blast
    then show ?thesis using assms by (intro within_str_join) (simp_all add: roomy_mem)
  qed
  have "post_process code =
      (case fix_returns [0 ..< length lines - 1] lines of
         Inl e \<Rightarrow> Inl e | Inr lines' \<Rightarrow> Inr (str_join [NL] lines'))"
    unfolding post_process_def Let_def lines_def code1_def by (rule refl)
  with l(1) 2 show ?thesis by simp
qed

lemma within_add_imports:
  assumes "roomy A" "set code \<subseteq> A"
  shows "set (add_imports code) \<subseteq> A"
proof -
  have "\<forall>l\<in>set (import_lines code). set l \<subseteq> A"
    using assms(1) by (auto simp: import_lines_def typing_import_def roomy_mem)
  then have "set (generate_imports code) \<subseteq> A"
    unfolding generate_imports_def using assms(1) by (intro within_str_join) (simp_all add: roomy_mem)
  with assms show ?thesis by (simp add: add_imports_def Let_def roomy_mem)
qed


section \<open>The claims\<close>

subsection \<open>Array methods\<close>


subsection \<open>Operators\<close>



subsection \<open>Determinism\<close>

text \<open>
  C9. The text that \<^verbatim>\<open>convert\<close> returns depends on the input only: whatever renamings an
  earlier call left in the converter, the result is the one of \<^verbatim>\<open>js_to_python\<close>, which
  starts from a new converter. The model is a function of the converter and the input, so
  nothing else can influence the result.
\<close>

theorem convert_ignores_earlier_state:
  "(case convert self js_code of Inl e \<Rightarrow> Inl e | Inr (python_code, self') \<Rightarrow> Inr python_code)
     = js_to_python js_code"
proof -
  have eq: "convert_variables self code = convert_variables new_converter code" for code
    by (cases self) (simp add: convert_variables_def new_converter_def)
  have "convert self js_code = convert new_converter js_code"
    unfolding convert_def eq by (rule refl)
  then show ?thesis by (simp add: js_to_python_def)
qed

subsection \<open>Synthesised imports\<close>

text \<open>
  C5, as the code has it. Each import line is among the lines that \<^verbatim>\<open>_generate_imports\<close>
  returns if and only if its trigger occurs in the converted text, each decided on its own:
  the \<^verbatim>\<open>typing\<close> line for one of \<^verbatim>\<open>List[\<close>, \<^verbatim>\<open>Dict[\<close>, the bare name \<^verbatim>\<open>Any\<close>, \<^verbatim>\<open>Union[\<close>,
  \<^verbatim>\<open>Optional[\<close>, \<^verbatim>\<open>Awaitable[\<close>; \<^verbatim>\<open>asyncio\<close> for \<^verbatim>\<open>async def\<close> or \<^verbatim>\<open>await\<close>; \<^verbatim>\<open>math\<close>,
  \<^verbatim>\<open>random\<close> and \<^verbatim>\<open>json\<close> for the name with a dot; \<^verbatim>\<open>functools\<close> for
  \<^verbatim>\<open>functools.reduce\<close>. The lines, joined by newlines and followed by an empty line, are put
  in front of the text; with no line the text is returned as it is.
\<close>

theorem imports_follow_their_triggers:
  "(typing_import \<in> set (import_lines code)
      \<longleftrightarrow> str_contains code ''List['' \<or> str_contains code ''Dict['' \<or> str_contains code ''Any''
          \<or> str_contains code ''Union['' \<or> str_contains code ''Optional[''
          \<or> str_contains code ''Awaitable['')
   \<and> (''import asyncio'' \<in> set (import_lines code)
      \<longleftrightarrow> str_contains code ''async def'' \<or> str_contains code ''await'')
   \<and> (''import math'' \<in> set (import_lines code) \<longleftrightarrow> str_contains code ''math.'')
   \<and> (''import random'' \<in> set (import_lines code) \<longleftrightarrow> str_contains code ''random.'')
   \<and> (''import json'' \<in> set (import_lines code) \<longleftrightarrow> str_contains code ''json.'')
   \<and> (''import functools'' \<in> set (import_lines code) \<longleftrightarrow> str_contains code ''functools.reduce'')
   \<and> add_imports code =
         (if import_lines code = [] then code
          else str_join [NL] (import_lines code) @ [NL, NL] @ code)"
proof -
  have "str_join [NL] (import_lines code) = [] \<longleftrightarrow> import_lines code = []"
    using import_lines_nonempty by (rule str_join_Nil_iff)
  then have "add_imports code =
         (if import_lines code = [] then code
          else str_join [NL] (import_lines code) @ [NL, NL] @ code)"
    by (simp add: add_imports_def generate_imports_def)
  moreover have "typing_import \<in> set (import_lines code)
      \<longleftrightarrow> str_contains code ''List['' \<or> str_contains code ''Dict['' \<or> str_contains code ''Any''
          \<or> str_contains code ''Union['' \<or> str_contains code ''Optional[''
          \<or> str_contains code ''Awaitable[''"
    by (simp add: import_lines_def typing_import_def typing_hints_def)
  moreover have "''import asyncio'' \<in> set (import_lines code)
      \<longleftrightarrow> str_contains code ''async def'' \<or> str_contains code ''await''"
    by (simp add: import_lines_def typing_import_def)
  moreover have "''import math'' \<in> set (import_lines code) \<longleftrightarrow> str_contains code ''math.''"
    by (simp add: import_lines_def typing_import_def)
  moreover have "''import random'' \<in> set (import_lines code) \<longleftrightarrow> str_contains code ''random.''"
    by (simp add: import_lines_def typing_import_def)
  moreover have "''import json'' \<in> set (import_lines code) \<longleftrightarrow> str_contains code ''json.''"
    by (simp add: import_lines_def typing_import_def)
  moreover have "''import functools'' \<in> set (import_lines code) \<longleftrightarrow> str_contains code ''functools.reduce''"
    by (simp add: import_lines_def typing_import_def)
  ultimately show ?thesis by blast
qed

text \<open>
  C5 as stated names bracketed typing names only. The input \<^verbatim>\<open>Any\<close> is converted to the text
  \<^verbatim>\<open>Any\<close>, in which no typing name is followed by a bracket, and the \<^verbatim>\<open>typing\<close> line is
  still put in front of it.
\<close>

theorem typing_import_for_bare_Any:
  "js_to_python ''Any''
     = Inr (''from typing import List, Dict, Any, Union, Optional, Awaitable'' @ [NL, NL] @ ''Any'')
   \<and> \<not> str_contains ''Any'' ''List['' \<and> \<not> str_contains ''Any'' ''Dict[''
   \<and> \<not> str_contains ''Any'' ''Any['' \<and> \<not> str_contains ''Any'' ''Union[''
   \<and> \<not> str_contains ''Any'' ''Optional['' \<and> \<not> str_contains ''Any'' ''Awaitable[''"
  by code_simp

subsection \<open>The indentation counter\<close>

text \<open>
  C8, as the code has it. The counter \<^verbatim>\<open>indent_level\<close> of the cleanup pass is never negative:
  not before a line, not after the decrement, not after the line. The step of the loop on
  line \<open>n\<close>, from the counter and the emitted lines after the first \<open>n\<close> lines: a blank line
  changes nothing in the counter; before any other line the counter is decremented by one,
  saturating at zero, if the stripped line begins with \<^verbatim>\<open>elif\<close>, \<^verbatim>\<open>else\<close>, \<^verbatim>\<open>except\<close> or
  \<^verbatim>\<open>finally\<close>; a line that contains \<^verbatim>\<open>__INDENT__\<close> is then dropped; any other line is emitted
  at the decremented level, and after it the counter is incremented if the line ends in a
  colon, unless it ends in a quote and a colon or begins with \<^verbatim>\<open>#\<close>.
\<close>

theorem indent_level_never_negative:
  fixes lines :: "string list" and n :: nat
  defines "level \<equiv> fst (indent_loop (take n lines))"
    and "emitted \<equiv> snd (indent_loop (take n lines))"
    and "stripped \<equiv> str_strip (lines ! n)"
  defines "lowered \<equiv>
      (if str_startswith stripped ''elif'' \<or> str_startswith stripped ''else''
          \<or> str_startswith stripped ''except'' \<or> str_startswith stripped ''finally''
       then max 0 (level - 1) else level)"
  assumes less: "n < length lines"
  shows "0 \<le> level \<and> 0 \<le> lowered \<and> 0 \<le> fst (indent_loop (take (Suc n) lines))
    \<and> indent_loop (take (Suc n) lines) =
        (if stripped = [] then (level, emitted @ [[]])
         else if str_contains stripped ''__INDENT__'' then (lowered, emitted)
         else (if str_endswith stripped '':'' \<and> \<not> str_endswith stripped [DQ, CHR '':'']
                  \<and> \<not> str_endswith stripped [SQ, CHR '':''] \<and> \<not> str_startswith stripped ''#''
               then lowered + 1 else lowered,
               emitted @ [concat (replicate (nat lowered) ''    '') @ stripped]))"
proof -
  have nonneg: "0 \<le> fst (indent_loop (take m lines))" for m
    unfolding indent_loop_def by (rule foldl_indent_step_nonneg) simp
  have st: "indent_loop (take n lines) = (level, emitted)"
    by (simp add: level_def emitted_def)
  have "indent_loop (take (Suc n) lines) = indent_step (level, emitted) (lines ! n)"
    using indent_loop_Suc [OF less] st by simp
  then have "indent_loop (take (Suc n) lines) =
        (if stripped = [] then (level, emitted @ [[]])
         else if str_contains stripped ''__INDENT__'' then (lowered, emitted)
         else (if str_endswith stripped '':'' \<and> \<not> str_endswith stripped [DQ, CHR '':'']
                  \<and> \<not> str_endswith stripped [SQ, CHR '':''] \<and> \<not> str_startswith stripped ''#''
               then lowered + 1 else lowered,
               emitted @ [concat (replicate (nat lowered) ''    '') @ stripped]))"
    by (simp add: indent_step_def Let_def dedent_before_def indent_after_def starts_branch_def
        opens_block_def indentation_def stripped_def lowered_def)
  moreover have "0 \<le> level" unfolding level_def by (rule nonneg)
  moreover from this have "0 \<le> lowered" by (simp add: lowered_def)
  moreover have "0 \<le> fst (indent_loop (take (Suc n) lines))" by (rule nonneg)
  ultimately show ?thesis by blast
qed

text \<open>The step on the third line of a conditional, which is its \<^verbatim>\<open>else\<close> header.\<close>

theorem indent_level_never_negative_witness:
  "indent_loop (take 3 [''if x:'', ''y'', ''else:'', ''z''])
     = (1, [''if x:'', ''    y'', ''else:''])
   \<and> indent_loop (take 2 [''if x:'', ''y'', ''else:'', ''z'']) = (1, [''if x:'', ''    y''])"
proof -
  have 2: "indent_loop (take 2 [''if x:'', ''y'', ''else:'', ''z'']) = (1, [''if x:'', ''    y''])"
    by code_simp
  have s: "str_strip ''else:'' = ''else:''" by code_simp
  have "(2::nat) < length [''if x:'', ''y'', ''else:'', ''z'']" by simp
  from indent_level_never_negative [OF this] 2 s
  show ?thesis
    by (simp add: eval_nat_numeral str_endswith_def)
qed

text \<open>
  C8 as stated increments after every line that ends in a colon which does not end a string
  literal. A comment line is such a line and leaves the counter at zero: the line after it
  is not indented.
\<close>

theorem comment_line_opens_no_block:
  "str_endswith ''# note:'' '':''
   \<and> \<not> str_endswith ''# note:'' [DQ, CHR '':'']
   \<and> \<not> str_endswith ''# note:'' [SQ, CHR '':'']
   \<and> indent_loop [''# note:'', ''x''] = (0, [''# note:'', ''x''])"
  by code_simp

subsection \<open>Renamed identifiers\<close>

text \<open>
  C2 at an input that declares \<^verbatim>\<open>max\<close> and uses it in two comparisons. The use in
  \<^verbatim>\<open>x > max\<close> is renamed to \<^verbatim>\<open>max_var\<close>; the use in \<^verbatim>\<open>max == x\<close> stands before an equals sign
  and keeps the name \<^verbatim>\<open>max\<close>.
\<close>

theorem comparison_use_keeps_old_name:
  "js_to_python (str_join [NL] [''const max = 20;'', ''const big = x > max;'',
       ''const same = max == x;''])
     = Inr (str_join [NL] [''max_var = 20'', ''big = x > max_var'', ''same = max == x''])"
  by code_simp

text \<open>
  C3 at an input that declares \<^verbatim>\<open>max\<close> and returns an object literal with the key \<^verbatim>\<open>max\<close>.
  The variable pass has renamed the key before the object pass quotes it, so the
  dictionary has the key \<^verbatim>\<open>"max_var"\<close>.
\<close>

theorem object_key_is_renamed:
  "js_to_python (str_join [NL] [''const max = 20;'', ''return {max: max};''])
     = Inr (str_join [NL] [''max_var = 20'', ''return {'' @ [DQ] @ ''max_var'' @ [DQ] @ '': max_var}''])"
  by code_simp

subsection \<open>Conditional chains\<close>

text \<open>
  C6 at a chain of \<^verbatim>\<open>if\<close>, \<^verbatim>\<open>else if\<close> and \<^verbatim>\<open>else\<close>. The pattern for \<^verbatim>\<open>if\<close> runs before the
  pattern for \<^verbatim>\<open>else if\<close> and takes its condition away, so no \<^verbatim>\<open>elif\<close> is written: the
  second header is \<^verbatim>\<open>else if b::\<close>. The cleanup pass adds a second colon to the \<^verbatim>\<open>if\<close>
  headers.
\<close>

theorem else_if_is_not_elif:
  "js_to_python (str_join [NL] [''if (a) {'', ''    f();'', ''} else if (b) {'', ''    g();'',
       ''} else {'', ''    h();'', ''}''])
     = Inr (str_join [NL] [''if a::'', ''    f()'', ''else if b::'', ''    g()'', ''else:'',
         ''    h()''])"
  by code_simp

end
